theory Spec2Isabelle
  imports Complex_Main
begin

section \<open>Python values, strings and exceptions\<close>

text \<open>
  The two functions verified here are \<^verbatim>\<open>format_number_with_decimals\<close> and
  \<^verbatim>\<open>calculate_comment\<close> of \<^verbatim>\<open>qft_viewer_final.py\<close>.

  A Python \<^verbatim>\<open>str\<close> is modelled as a HOL \<open>string\<close>. Characters below 128 are the ASCII
  code points, and on them \<^verbatim>\<open>strip\<close>, \<^verbatim>\<open>upper\<close>, \<^verbatim>\<open>float\<close> and \<^verbatim>\<open>int\<close> are modelled
  as CPython defines them. A character from 128 upwards stands for a non-ASCII code point
  that the Unicode database classifies neither as whitespace nor as a decimal digit nor
  as a cased letter; the Unicode tables themselves are not part of the model.

  The cells of a row come from TEXT columns of the session database or from a data frame
  read with \<^verbatim>\<open>dtype=str\<close>: a cell is a \<^verbatim>\<open>str\<close> or \<^verbatim>\<open>None\<close>. The decimal-places setting
  comes from the settings file: it is modelled as \<^verbatim>\<open>None\<close>, a \<^verbatim>\<open>str\<close> or an \<^verbatim>\<open>int\<close>.
\<close>

datatype py_error = ValueError | TypeError | OverflowError

datatype pyval = PyNone | PyStr string

datatype setting = SNone | SStr string | SInt int

text \<open>A Python float: a finite binary64 value as sign and magnitude (so that \<open>-0.0\<close>
  is \<open>Finite True 0\<close>), an infinity with its sign, or a NaN.\<close>

datatype pyfloat = Finite bool rat | Infinity bool | NaN

type_synonym 'a result = "py_error + 'a"

text \<open>A computation returns \<open>Inr\<close> its value or \<open>Inl\<close> the exception it raises;
  \<open>bind_res\<close> runs one after another. \<open>try_except\<close> is
  \<^verbatim>\<open>try: body except (E1, ...): handler\<close>: an exception of another class propagates.\<close>

definition bind_res :: "'a result \<Rightarrow> ('a \<Rightarrow> 'b result) \<Rightarrow> 'b result" where
  "bind_res m f = (case m of Inl e \<Rightarrow> Inl e | Inr v \<Rightarrow> f v)"

definition try_except :: "'a result \<Rightarrow> py_error list \<Rightarrow> 'a result \<Rightarrow> 'a result" where
  "try_except body classes handler =
     (case body of Inl e \<Rightarrow> if e \<in> set classes then handler else Inl e | Inr v \<Rightarrow> Inr v)"

text \<open>\<^verbatim>\<open>str(x)\<close> on a cell.\<close>

fun py_str :: "pyval \<Rightarrow> string" where
  "py_str PyNone = ''None''"
| "py_str (PyStr s) = s"

subsection \<open>String methods\<close>

text \<open>\<^verbatim>\<open>str.isspace\<close> on one character: TAB, LF, VT, FF, CR, the separators
  \<^verbatim>\<open>\x1c\<close> to \<^verbatim>\<open>\x1f\<close>, and the space.\<close>

definition py_isspace :: "char \<Rightarrow> bool" where
  "py_isspace c \<longleftrightarrow>
     c \<in> set [CHR 0x09, CHR 0x0A, CHR 0x0B, CHR 0x0C, CHR 0x0D,
              CHR 0x1C, CHR 0x1D, CHR 0x1E, CHR 0x1F, CHR 0x20]"

text \<open>The C macro \<^verbatim>\<open>Py_ISSPACE\<close>, which \<^verbatim>\<open>float\<close> and \<^verbatim>\<open>int\<close> use on their argument.\<close>

definition c_isspace :: "char \<Rightarrow> bool" where
  "c_isspace c \<longleftrightarrow> c \<in> set [CHR 0x09, CHR 0x0A, CHR 0x0B, CHR 0x0C, CHR 0x0D, CHR 0x20]"

definition strip_with :: "(char \<Rightarrow> bool) \<Rightarrow> string \<Rightarrow> string" where
  "strip_with P s = rev (dropWhile P (rev (dropWhile P s)))"

definition py_strip :: "string \<Rightarrow> string" where
  "py_strip s = strip_with py_isspace s"

definition upper_char :: "char \<Rightarrow> char" where
  "upper_char c =
     (case map_of (zip ''abcdefghijklmnopqrstuvwxyz'' ''ABCDEFGHIJKLMNOPQRSTUVWXYZ'') c of
        Some u \<Rightarrow> u
      | None \<Rightarrow> c)"

definition lower_char :: "char \<Rightarrow> char" where
  "lower_char c =
     (case map_of (zip ''ABCDEFGHIJKLMNOPQRSTUVWXYZ'' ''abcdefghijklmnopqrstuvwxyz'') c of
        Some l \<Rightarrow> l
      | None \<Rightarrow> c)"

definition py_upper :: "string \<Rightarrow> string" where
  "py_upper s = map upper_char s"

text \<open>\<^verbatim>\<open>s.replace(c, '')\<close> for a one-character \<^verbatim>\<open>c\<close>: every occurrence goes.\<close>

definition py_remove :: "char \<Rightarrow> string \<Rightarrow> string" where
  "py_remove c s = filter (\<lambda>x. x \<noteq> c) s"

subsection \<open>Decimal digits\<close>

definition is_digit :: "char \<Rightarrow> bool" where
  "is_digit c \<longleftrightarrow> c \<in> set ''0123456789''"

definition digit_val :: "char \<Rightarrow> int" where
  "digit_val c =
     (case map_of (zip ''0123456789'' [0, 1, 2, 3, 4, 5, 6, 7, 8, 9]) c of
        Some d \<Rightarrow> d
      | None \<Rightarrow> 0)"

definition int_of_digits :: "string \<Rightarrow> int" where
  "int_of_digits ds = foldl (\<lambda>n c. 10 * n + digit_val c) 0 ds"

definition digit_char :: "nat \<Rightarrow> char" where
  "digit_char d = ''0123456789'' ! d"

text \<open>The decimal digits of an integer that is not negative.\<close>

function str_of_nonneg :: "int \<Rightarrow> string" where
  "str_of_nonneg n =
     (if n < 10 then [digit_char (nat n)]
      else str_of_nonneg (n div 10) @ [digit_char (nat (n mod 10))])"
  by pat_completeness auto
termination
  by (relation "measure nat") auto

declare str_of_nonneg.simps [simp del]

text \<open>\<^verbatim>\<open>str(i)\<close> for an \<^verbatim>\<open>int\<close>.\<close>

definition str_of_int :: "int \<Rightarrow> string" where
  "str_of_int i = (if i < 0 then CHR ''-'' # str_of_nonneg (- i) else str_of_nonneg i)"

text \<open>Underscores in a numeric literal (\<^verbatim>\<open>_Py_string_to_number_with_underscores\<close>): each
  one stands between two digits; they are dropped. \<open>prev\<close> is the character before.\<close>

fun drop_underscores :: "char \<Rightarrow> string \<Rightarrow> string option" where
  "drop_underscores prev [] = (if prev = CHR ''_'' then None else Some [])"
| "drop_underscores prev (c # cs) =
     (if c = CHR ''_'' then (if is_digit prev then drop_underscores c cs else None)
      else if prev = CHR ''_'' \<and> \<not> is_digit c then None
      else map_option ((#) c) (drop_underscores c cs))"

fun take_sign :: "string \<Rightarrow> bool \<times> string" where
  "take_sign [] = (False, [])"
| "take_sign (c # cs) =
     (if c = CHR ''-'' then (True, cs) else if c = CHR ''+'' then (False, cs) else (False, c # cs))"

section \<open>Floats\<close>

text \<open>The functions of this section are those of the Python runtime that the two functions
  call: \<^verbatim>\<open>float\<close> on a string with its correctly rounded result, the comparisons,
  \<^verbatim>\<open>int\<close> and the fixed-point format. Limits of memory are not modelled.\<close>

subsection \<open>Rounding to binary64\<close>

text \<open>The number of binary digits of a positive integer \<open>n\<close>: the \<open>l\<close> with
  \<open>2\<^sup>l\<^sup>-\<^sup>1 \<le> n < 2\<^sup>l\<close>.\<close>

function bit_length :: "int \<Rightarrow> int" where
  "bit_length n = (if n \<le> 0 then 0 else 1 + bit_length (n div 2))"
  by pat_completeness auto
termination
  by (relation "measure nat") auto

declare bit_length.simps [simp del]

definition pow2 :: "int \<Rightarrow> rat" where
  "pow2 k = (if 0 \<le> k then 2 ^ nat k else 1 / 2 ^ nat (- k))"

text \<open>For \<open>0 < q\<close>, the \<open>k\<close> with \<open>2\<^sup>k \<le> q < 2\<^sup>k\<^sup>+\<^sup>1\<close>.\<close>

definition ilog2 :: "rat \<Rightarrow> int" where
  "ilog2 q = (if 1 \<le> q then bit_length \<lfloor>q\<rfloor> - 1 else - bit_length (\<lceil>1 / q\<rceil> - 1))"

definition round_half_even :: "rat \<Rightarrow> int" where
  "round_half_even x =
     (let f = \<lfloor>x\<rfloor>; d = x - of_int f
      in if d < 1 / 2 then f else if 1 / 2 < d then f + 1 else if even f then f else f + 1)"

text \<open>The binary64 value nearest to the magnitude \<open>q \<ge> 0\<close>, ties to even. A finite
  binary64 magnitude is \<open>m * 2\<^sup>p\<close> with \<open>m < 2\<^sup>5\<^sup>3\<close> and \<open>-1074 \<le> p \<le> 971\<close>: the unit in the
  last place \<open>2\<^sup>p\<close> leaves 53 significant bits, or is the least one \<open>2\<^sup>-\<^sup>1\<^sup>0\<^sup>7\<^sup>4\<close>
  (subnormals); \<open>q\<close> is rounded to a multiple of it. A result of \<open>2\<^sup>1\<^sup>0\<^sup>2\<^sup>4\<close> or more
  (\<open>p\<close> beyond 971, or \<open>m\<close> rounded up to \<open>2\<^sup>5\<^sup>3\<close> at \<open>p = 971\<close>) is an infinity.\<close>

definition to_double :: "bool \<Rightarrow> rat \<Rightarrow> pyfloat" where
  "to_double neg q =
     (if q = 0 then Finite neg 0
      else let p = max (ilog2 q - 52) (- 1074);
               m = round_half_even (q / pow2 p)
           in if 971 < p \<or> (p = 971 \<and> m = 2 ^ 53) then Infinity neg
              else Finite neg (of_int m * pow2 p))"

subsection \<open>\<^verbatim>\<open>float(s)\<close>\<close>

definition dec_value :: "int \<Rightarrow> int \<Rightarrow> rat" where
  "dec_value m e = (if 0 \<le> e then of_int m * 10 ^ nat e else of_int m / 10 ^ nat (- e))"

text \<open>The decimal grammar of \<^verbatim>\<open>_Py_dg_strtod\<close>, on the whole string: a sign, digits with
  at most one point and at least one digit, and an exponent \<^verbatim>\<open>e\<close> or \<^verbatim>\<open>E\<close> with a sign
  and at least one digit. The result is the sign, the digits read as one number
  and the power of ten.\<close>

definition parse_exponent :: "string \<Rightarrow> int option" where
  "parse_exponent r =
     (case r of
        [] \<Rightarrow> Some 0
      | c # cs \<Rightarrow>
          if c = CHR ''e'' \<or> c = CHR ''E'' then
            (let (eneg, ds) = take_sign cs
             in if ds \<noteq> [] \<and> list_all is_digit ds
                then Some (if eneg then - int_of_digits ds else int_of_digits ds)
                else None)
          else None)"

definition parse_decimal :: "string \<Rightarrow> (bool \<times> int \<times> int) option" where
  "parse_decimal t =
     (let (neg, r) = take_sign t;
          ip = takeWhile is_digit r;
          r1 = dropWhile is_digit r;
          (fp, r2) = (case r1 of
                        [] \<Rightarrow> ([], [])
                      | c # cs \<Rightarrow> if c = CHR ''.'' then (takeWhile is_digit cs, dropWhile is_digit cs)
                                  else ([], r1))
      in if ip = [] \<and> fp = [] then None
         else map_option (\<lambda>e. (neg, int_of_digits (ip @ fp), e - int (length fp)))
                (parse_exponent r2))"

text \<open>\<^verbatim>\<open>_Py_parse_inf_or_nan\<close>: a sign, then \<^verbatim>\<open>inf\<close>, \<^verbatim>\<open>infinity\<close> or \<^verbatim>\<open>nan\<close> in any case.\<close>

definition parse_inf_nan :: "string \<Rightarrow> pyfloat option" where
  "parse_inf_nan t =
     (let (neg, r) = take_sign t; l = map lower_char r
      in if l = ''inf'' \<or> l = ''infinity'' then Some (Infinity neg)
         else if l = ''nan'' then Some NaN
         else None)"

definition py_float :: "string \<Rightarrow> pyfloat result" where
  "py_float s =
     (case drop_underscores (CHR 0x00) s of
        None \<Rightarrow> Inl ValueError
      | Some t \<Rightarrow>
          (let u = strip_with c_isspace t
           in if u = [] then Inl ValueError
              else case parse_decimal u of
                     Some (neg, m, e) \<Rightarrow> Inr (to_double neg (dec_value m e))
                   | None \<Rightarrow>
                       (case parse_inf_nan u of
                          Some f \<Rightarrow> Inr f
                        | None \<Rightarrow> Inl ValueError)))"

text \<open>The sign and the exact magnitude that a decimal text denotes, before \<^verbatim>\<open>float\<close>
  rounds it to binary64.\<close>

definition text_value :: "string \<Rightarrow> (bool \<times> rat) option" where
  "text_value s =
     (case drop_underscores (CHR 0x00) s of
        None \<Rightarrow> None
      | Some t \<Rightarrow>
          map_option (\<lambda>(neg, m, e). (neg, dec_value m e)) (parse_decimal (strip_with c_isspace t)))"

subsection \<open>Operations on floats\<close>

text \<open>The value of a float on the extended line; a NaN has none.\<close>

fun signed :: "bool \<Rightarrow> rat \<Rightarrow> rat" where
  "signed neg q = (if neg then - q else q)"

text \<open>The comparisons \<^verbatim>\<open>a <= b\<close> and \<^verbatim>\<open>a < b\<close> of two floats; with a NaN both are false.\<close>

fun float_le :: "pyfloat \<Rightarrow> pyfloat \<Rightarrow> bool" where
  "float_le NaN _ = False"
| "float_le _ NaN = False"
| "float_le (Infinity na) (Infinity nb) = (na \<or> \<not> nb)"
| "float_le (Infinity na) (Finite _ _) = na"
| "float_le (Finite _ _) (Infinity nb) = (\<not> nb)"
| "float_le (Finite na a) (Finite nb b) = (signed na a \<le> signed nb b)"

fun float_less :: "pyfloat \<Rightarrow> pyfloat \<Rightarrow> bool" where
  "float_less NaN _ = False"
| "float_less _ NaN = False"
| "float_less (Infinity na) (Infinity nb) = (na \<and> \<not> nb)"
| "float_less (Infinity na) (Finite _ _) = na"
| "float_less (Finite _ _) (Infinity nb) = (\<not> nb)"
| "float_less (Finite na a) (Finite nb b) = (signed na a < signed nb b)"

text \<open>\<^verbatim>\<open>int(x)\<close> truncates towards zero; it raises \<^verbatim>\<open>OverflowError\<close> on an infinity and
  \<^verbatim>\<open>ValueError\<close> on a NaN.\<close>

fun py_int_of_float :: "pyfloat \<Rightarrow> int result" where
  "py_int_of_float (Finite neg q) = Inr (if neg then - \<lfloor>q\<rfloor> else \<lfloor>q\<rfloor>)"
| "py_int_of_float (Infinity _) = Inl OverflowError"
| "py_int_of_float NaN = Inl ValueError"

text \<open>\<^verbatim>\<open>x == i\<close> for a float and an \<^verbatim>\<open>int\<close> compares the exact values.\<close>

fun float_eq_int :: "pyfloat \<Rightarrow> int \<Rightarrow> bool" where
  "float_eq_int (Finite neg q) i = (signed neg q = of_int i)"
| "float_eq_int _ _ = False"

subsection \<open>\<^verbatim>\<open>int(x)\<close> on the decimal-places setting\<close>

text \<open>On a \<^verbatim>\<open>str\<close>: whitespace around, a sign, then digits with single underscores
  between them. CPython 3.11 refuses more than 4300 digits with a \<^verbatim>\<open>ValueError\<close>.
  \<^verbatim>\<open>int(None)\<close> raises \<^verbatim>\<open>TypeError\<close>.\<close>

definition int_max_str_digits :: nat where
  "int_max_str_digits = 4300"

fun py_int :: "setting \<Rightarrow> int result" where
  "py_int SNone = Inl TypeError"
| "py_int (SInt n) = Inr n"
| "py_int (SStr s) =
     (let (neg, r) = take_sign (strip_with c_isspace s)
      in case drop_underscores (CHR 0x00) r of
           None \<Rightarrow> Inl ValueError
         | Some ds \<Rightarrow>
             if ds \<noteq> [] \<and> list_all is_digit ds \<and> length ds \<le> int_max_str_digits
             then Inr (if neg then - int_of_digits ds else int_of_digits ds)
             else Inl ValueError)"

subsection \<open>The format specification \<^verbatim>\<open>f"{num:.{decimals}f}"\<close>\<close>

text \<open>The specification is the text \<^verbatim>\<open>.\<close>, \<^verbatim>\<open>str(decimals)\<close>, \<^verbatim>\<open>f\<close>. With a negative
  \<^verbatim>\<open>decimals\<close> the precision is missing, and a precision above \<^verbatim>\<open>INT_MAX\<close> is too big:
  both raise \<^verbatim>\<open>ValueError\<close>. Otherwise the exact value of the float is rounded to
  \<^verbatim>\<open>decimals\<close> places, ties to even, and the sign is kept even when the digits are all
  zero.\<close>

definition fixed_digits :: "rat \<Rightarrow> nat \<Rightarrow> string" where
  "fixed_digits q n =
     (let ds = str_of_nonneg (round_half_even (q * 10 ^ n));
          padded = replicate (n + 1 - length ds) (CHR ''0'') @ ds;
          ip = take (length padded - n) padded;
          fp = drop (length padded - n) padded
      in ip @ (if n = 0 then [] else CHR ''.'' # fp))"

definition py_format_f :: "pyfloat \<Rightarrow> int \<Rightarrow> string result" where
  "py_format_f num decimals =
     (if decimals < 0 \<or> 2147483647 < decimals then Inl ValueError
      else Inr (case num of
                  NaN \<Rightarrow> ''nan''
                | Infinity neg \<Rightarrow> (if neg then ''-inf'' else ''inf'')
                | Finite neg q \<Rightarrow> (if neg then ''-'' else []) @ fixed_digits q (nat decimals)))"

section \<open>The numeric display formatter\<close>

text \<open>\<^verbatim>\<open>format_number_with_decimals(value_str, decimals_setting)\<close>. The argument is
  turned into a string and stripped before anything else. The result is \<open>Inr\<close> the
  returned string, or \<open>Inl\<close> the exception that leaves the function.\<close>

definition format_number_with_decimals :: "pyval \<Rightarrow> setting \<Rightarrow> string result" where
  "format_number_with_decimals raw_value decimals_setting =
     (let value_str = py_strip (py_str raw_value)
      in if value_str = [] \<or> value_str = '' '' then Inr '' ''
         else if CHR ''>'' \<in> set value_str \<or> CHR ''<'' \<in> set value_str then Inr value_str
         else try_except
                (bind_res (py_float value_str) (\<lambda>num.
                   if decimals_setting = SStr ''default'' then
                     bind_res (py_int_of_float num) (\<lambda>i.
                       if float_eq_int num i then Inr (str_of_int i) else Inr value_str)
                   else
                     try_except
                       (bind_res (py_int decimals_setting) (\<lambda>decimals. py_format_f num decimals))
                       [ValueError]
                       (Inr value_str)))
                [ValueError, TypeError]
                (Inr value_str))"

section \<open>The result classifier\<close>

type_synonym row = "string \<rightharpoonup> pyval"

text \<open>\<^verbatim>\<open>str(row_dict.get(key, default))\<close>.\<close>

definition row_get_str :: "row \<Rightarrow> string \<Rightarrow> string \<Rightarrow> string" where
  "row_get_str row_dict key dflt = (case row_dict key of None \<Rightarrow> dflt | Some v \<Rightarrow> py_str v)"

text \<open>One numeric field: \<^verbatim>\<open>s = str(row_dict.get(key, '0')).replace('>', '').replace('<', '').strip()\<close>
  and then \<^verbatim>\<open>float(s) if s else 0.0\<close>.\<close>

definition numeric_field :: "row \<Rightarrow> string \<Rightarrow> pyfloat result" where
  "numeric_field row_dict key =
     (let val_str = py_strip (py_remove (CHR ''<'') (py_remove (CHR ''>'') (row_get_str row_dict key ''0'')))
      in if val_str \<noteq> [] then py_float val_str else Inr (Finite False 0))"

text \<open>The float literals of the source.\<close>

definition lit_1_0 :: pyfloat where "lit_1_0 = to_double False 1"
definition lit_0_35 :: pyfloat where "lit_0_35 = to_double False (35 / 100)"
definition lit_8_0 :: pyfloat where "lit_8_0 = to_double False 8"
definition lit_0_5 :: pyfloat where "lit_0_5 = to_double False (5 / 10)"

text \<open>The branches on the category, after the four fields are parsed.\<close>

definition comment_of :: "string \<Rightarrow> pyfloat \<Rightarrow> pyfloat \<Rightarrow> pyfloat \<Rightarrow> pyfloat \<Rightarrow> string" where
  "comment_of qft_result nil_val tb1_nil tb2_nil mit_nil =
     (if qft_result = ''POS'' \<or> qft_result = ''POS*'' then
        (if float_le lit_1_0 tb1_nil \<or> float_le lit_1_0 tb2_nil then []
         else let is_wp_tb1 = (float_le lit_0_35 tb1_nil \<and> float_less tb1_nil lit_1_0);
                  is_wp_tb2 = (float_le lit_0_35 tb2_nil \<and> float_less tb2_nil lit_1_0)
              in if is_wp_tb1 \<and> is_wp_tb2 then ''WP (Both)''
                 else if is_wp_tb1 then ''WP (TB1)''
                 else if is_wp_tb2 then ''WP (TB2)''
                 else [])
      else if qft_result = ''IND'' then
        (if float_less lit_8_0 nil_val then ''High Nil''
         else if float_less mit_nil lit_0_5 then ''Low Mit''
         else [])
      else [])"

text \<open>\<^verbatim>\<open>calculate_comment(row_dict)\<close>. The handler also prints a line with the barcode;
  the output stream is not modelled.\<close>

definition calculate_comment :: "row \<Rightarrow> string result" where
  "calculate_comment row_dict =
     (let qft_result = py_upper (row_get_str row_dict ''qft_result'' [])
      in try_except
           (bind_res (numeric_field row_dict ''nil_result'') (\<lambda>nil_val.
            bind_res (numeric_field row_dict ''tb1_nil'') (\<lambda>tb1_nil.
            bind_res (numeric_field row_dict ''tb2_nil'') (\<lambda>tb2_nil.
            bind_res (numeric_field row_dict ''mit_nil'') (\<lambda>mit_nil.
              Inr (comment_of qft_result nil_val tb1_nil tb2_nil mit_nil))))))
           [ValueError, TypeError]
           (Inr ''Error''))"


section \<open>What the specification says, where it differs from the code\<close>





text \<open>The integer a float equals, when \<^verbatim>\<open>num == int(num)\<close> holds.\<close>

fun whole_value :: "pyfloat \<Rightarrow> int option" where
  "whole_value (Finite neg q) =
     (if of_int \<lfloor>q\<rfloor> = q then Some (if neg then - \<lfloor>q\<rfloor> else \<lfloor>q\<rfloor>) else None)"
| "whole_value _ = None"

fun is_infinite :: "pyfloat \<Rightarrow> bool" where
  "is_infinite (Infinity _) = True"
| "is_infinite _ = False"

section \<open>Properties of the string functions\<close>

lemma dropWhile_all_iff: "(\<forall>x\<in>set (dropWhile P s). P x) \<longleftrightarrow> (\<forall>c\<in>set s. P c)"
  by (induction s) auto

lemma strip_with_Nil_iff: "strip_with P s = [] \<longleftrightarrow> (\<forall>c\<in>set s. P c)"
  by (simp add: strip_with_def dropWhile_eq_Nil_conv dropWhile_all_iff)

lemma strip_with_keeps: "c \<in> set s \<Longrightarrow> \<not> P c \<Longrightarrow> c \<in> set (strip_with P s)"
proof -
  assume c: "c \<in> set s" and n: "\<not> P c"
  have a: "c \<in> set (dropWhile P s)"
    using c n by (induction s) auto
  have b: "c \<in> set (dropWhile P (rev (dropWhile P s)))" 
  proof -
    have "\<And>xs. c \<in> set xs \<Longrightarrow> c \<in> set (dropWhile P xs)"
    proof -
      fix xs show "c \<in> set xs \<Longrightarrow> c \<in> set (dropWhile P xs)" using n by (induction xs) auto
    qed
    then show ?thesis using a by simp
  qed
  then show ?thesis by (simp add: strip_with_def)
qed

lemma strip_with_subset: "set (strip_with P s) \<subseteq> set s"
proof
  fix x assume "x \<in> set (strip_with P s)"
  then have "x \<in> set (dropWhile P (rev (dropWhile P s)))" by (simp add: strip_with_def)
  then have "x \<in> set (rev (dropWhile P s))" by (rule set_dropWhileD)
  then have "x \<in> set (dropWhile P s)" by simp
  then show "x \<in> set s" by (rule set_dropWhileD)
qed

lemma strip_with_ends:
  assumes "strip_with P s \<noteq> []"
  shows "\<not> P (hd (strip_with P s))" and "\<not> P (last (strip_with P s))"
proof -
  let ?a = "dropWhile P s"
  let ?b = "dropWhile P (rev ?a)"
  from assms have b: "?b \<noteq> []" by (simp add: strip_with_def)
  then have "\<not> P (hd ?b)" by (simp add: hd_dropWhile)
  then show "\<not> P (last (strip_with P s))" using b by (simp add: strip_with_def last_rev)
  have a: "?a \<noteq> []" using b by (cases "?a") auto
  then have ha: "\<not> P (hd ?a)" by (simp add: hd_dropWhile)
  have "rev ?a = takeWhile P (rev ?a) @ ?b" by simp
  then have "?a = rev ?b @ rev (takeWhile P (rev ?a))" by (metis rev_append rev_rev_ident)
  then have "hd ?a = hd (rev ?b)" using b by (metis hd_append2 rev_is_Nil_conv)
  then show "\<not> P (hd (strip_with P s))" using ha by (simp add: strip_with_def)
qed

lemma dropWhile_hd_id: "xs \<noteq> [] \<Longrightarrow> \<not> P (hd xs) \<Longrightarrow> dropWhile P xs = xs"
  by (cases xs) auto

lemma strip_with_idem: "strip_with P (strip_with P s) = strip_with P s"
proof (cases "strip_with P s = []")
  case True
  then have "strip_with P [] = []" by (simp add: strip_with_def)
  with True show ?thesis by simp
next
  case False
  let ?t = "strip_with P s"
  from strip_with_ends[OF False] have h: "\<not> P (hd ?t)" and l: "\<not> P (last ?t)" by auto
  have 1: "dropWhile P ?t = ?t" using False h by (rule dropWhile_hd_id)
  have r: "rev ?t \<noteq> []" using False by simp
  have "hd (rev ?t) = last ?t" using False by (simp add: hd_rev)
  with l have "\<not> P (hd (rev ?t))" by simp
  with r have 2: "dropWhile P (rev ?t) = rev ?t" by (rule dropWhile_hd_id)
  show ?thesis using 1 2 by (simp add: strip_with_def[of P ?t])
qed

lemma py_strip_not_space: "py_strip s \<noteq> '' ''"
proof
  assume e: "py_strip s = '' ''"
  then have "strip_with py_isspace s \<noteq> []" by (simp add: py_strip_def)
  from strip_with_ends(1)[OF this] e show False by (simp add: py_strip_def py_isspace_def)
qed

lemma py_float_error: "py_float s = Inl e \<Longrightarrow> e = ValueError"
  by (auto simp: py_float_def Let_def split: option.splits if_splits)

lemma py_float_Nil: "py_float [] = Inl ValueError"
  by (simp add: py_float_def strip_with_def)

lemma py_strip_Nil_iff: "py_strip s = [] \<longleftrightarrow> (\<forall>c\<in>set s. py_isspace c)"
  by (simp add: py_strip_def strip_with_Nil_iff)

lemma py_strip_keeps: "c \<in> set s \<Longrightarrow> \<not> py_isspace c \<Longrightarrow> c \<in> set (py_strip s)"
  by (simp add: py_strip_def strip_with_keeps)

lemma py_strip_idem: "py_strip (py_strip s) = py_strip s"
  by (simp add: py_strip_def strip_with_idem)

lemma cmp_not_space: "\<not> py_isspace (CHR ''>'')" "\<not> py_isspace (CHR ''<'')"
  by (simp_all add: py_isspace_def)

lemma cmp_in_strip:
  "CHR ''>'' \<in> set s \<or> CHR ''<'' \<in> set s \<Longrightarrow>
   CHR ''>'' \<in> set (py_strip s) \<or> CHR ''<'' \<in> set (py_strip s)"
  using py_strip_keeps cmp_not_space by blast

lemma cmp_strip_nonempty:
  "CHR ''>'' \<in> set s \<or> CHR ''<'' \<in> set s \<Longrightarrow> py_strip s \<noteq> []"
  using cmp_in_strip by fastforce

section \<open>Properties of the float parser\<close>

lemma drop_underscores_set:
  "drop_underscores prev s = Some t \<Longrightarrow> c \<in> set s \<Longrightarrow> c = CHR ''_'' \<or> c \<in> set t"
proof (induction s arbitrary: prev t)
  case Nil
  then show ?case by simp
next
  case (Cons x xs)
  show ?case
  proof (cases "x = CHR ''_''")
    case True
    with Cons.prems have "drop_underscores x xs = Some t"
      by (simp split: if_splits)
    with Cons.IH Cons.prems(2) True show ?thesis by auto
  next
    case False
    with Cons.prems obtain t' where t': "drop_underscores x xs = Some t'" and t: "t = x # t'"
      by (auto split: if_splits)
    with Cons.IH Cons.prems(2) show ?thesis by auto
  qed
qed

lemma take_sign_set:
  "take_sign u = (neg, r) \<Longrightarrow> c \<in> set u \<Longrightarrow> c = CHR ''-'' \<or> c = CHR ''+'' \<or> c \<in> set r"
  by (cases u) (auto split: if_splits)

lemma parse_exponent_set:
  "parse_exponent r = Some e \<Longrightarrow> c \<in> set r \<Longrightarrow> c \<in> set ''eE+-'' \<or> is_digit c"
proof -
  assume p: "parse_exponent r = Some e" and c: "c \<in> set r"
  from c obtain x xs where r: "r = x # xs" by (cases r) auto
  with p have x: "x = CHR ''e'' \<or> x = CHR ''E''"
    by (auto simp: parse_exponent_def split: if_splits)
  obtain eneg ds where ts: "take_sign xs = (eneg, ds)" by (cases "take_sign xs")
  with p r x have ds: "list_all is_digit ds"
    by (auto simp: parse_exponent_def split: if_splits)
  show ?thesis
  proof (cases "c = x")
    case True
    with x show ?thesis by auto
  next
    case False
    with c r have "c \<in> set xs" by simp
    from take_sign_set[OF ts this] ds show ?thesis by (auto simp: list_all_iff)
  qed
qed

lemma span_digit_set:
  "c \<in> set r \<Longrightarrow> is_digit c \<or> c \<in> set (dropWhile is_digit r)"
  by (induction r) auto

lemma parse_decimal_set:
  assumes "parse_decimal u = Some x" and "c \<in> set u"
  shows "is_digit c \<or> c \<in> set ''+-.eE''"
proof -
  obtain neg r where ts: "take_sign u = (neg, r)" by (cases "take_sign u")
  let ?r1 = "dropWhile is_digit r"
  show ?thesis
  proof (cases "c \<in> set r \<and> \<not> is_digit c")
    case False
    with take_sign_set[OF ts assms(2)] show ?thesis by auto
  next
    case True
    with span_digit_set have c1: "c \<in> set ?r1" by blast
    then obtain y ys where r1: "?r1 = y # ys" by (cases ?r1) auto
    show ?thesis
    proof (cases "y = CHR ''.''")
      case dot: True
      with assms(1) ts r1 obtain e where e: "parse_exponent (dropWhile is_digit ys) = Some e"
        by (auto simp: parse_decimal_def Let_def split: if_splits)
      show ?thesis
      proof (cases "c = y")
        case True with dot show ?thesis by simp
      next
        case False
        with c1 r1 have "c \<in> set ys" by simp
        with span_digit_set True have "c \<in> set (dropWhile is_digit ys)" by blast
        from parse_exponent_set[OF e this] show ?thesis by auto
      qed
    next
      case nodot: False
      with assms(1) ts r1 obtain e where e: "parse_exponent ?r1 = Some e"
        by (auto simp: parse_decimal_def Let_def split: if_splits)
      from parse_exponent_set[OF e c1] show ?thesis by auto
    qed
  qed
qed

lemma parse_inf_nan_set:
  assumes "parse_inf_nan u = Some f" and "c \<in> set u"
  shows "c \<in> set ''+-'' \<or> lower_char c \<in> set ''infinityan''"
proof -
  obtain neg r where ts: "take_sign u = (neg, r)" by (cases "take_sign u")
  with assms(1) have l: "map lower_char r = ''inf'' \<or> map lower_char r = ''infinity'' \<or> map lower_char r = ''nan''"
    by (auto simp: parse_inf_nan_def Let_def split: if_splits)
  show ?thesis
  proof (cases "c \<in> set r")
    case False
    with take_sign_set[OF ts assms(2)] show ?thesis by auto
  next
    case True
    then have "lower_char c \<in> set (map lower_char r)" by simp
    with l show ?thesis by auto
  qed
qed

lemma cmp_not_float_char:
  "\<not> c_isspace (CHR ''>'')" "\<not> c_isspace (CHR ''<'')"
  "\<not> is_digit (CHR ''>'')" "\<not> is_digit (CHR ''<'')"
  "lower_char (CHR ''>'') = CHR ''>''" "lower_char (CHR ''<'') = CHR ''<''"
  by (simp_all add: c_isspace_def is_digit_def lower_char_def)

lemma py_float_parsed:
  assumes "py_float s = Inr v"
  shows "\<exists>t. drop_underscores (CHR 0x00) s = Some t \<and>
             (parse_decimal (strip_with c_isspace t) \<noteq> None \<or>
              parse_inf_nan (strip_with c_isspace t) \<noteq> None)"
proof (cases "drop_underscores (CHR 0x00) s")
  case None
  with assms show ?thesis by (simp add: py_float_def)
next
  case (Some t)
  show ?thesis
  proof (cases "parse_decimal (strip_with c_isspace t)")
    case pd: None
    show ?thesis
    proof (cases "parse_inf_nan (strip_with c_isspace t)")
      case None
      with pd \<open>drop_underscores (CHR 0x00) s = Some t\<close> assms show ?thesis
        by (simp add: py_float_def Let_def split: if_splits)
    next
      case (Some f)
      with \<open>drop_underscores (CHR 0x00) s = Some t\<close> show ?thesis by simp
    qed
  next
    case (Some x)
    with \<open>drop_underscores (CHR 0x00) s = Some t\<close> show ?thesis by (cases x) simp
  qed
qed

lemma py_float_no_cmp:
  assumes "py_float s = Inr v" and c: "c = CHR ''>'' \<or> c = CHR ''<''"
  shows "c \<notin> set s"
proof
  assume cs: "c \<in> set s"
  from py_float_parsed[OF assms(1)] obtain t where t: "drop_underscores (CHR 0x00) s = Some t"
    and p: "parse_decimal (strip_with c_isspace t) \<noteq> None \<or>
            parse_inf_nan (strip_with c_isspace t) \<noteq> None" by blast
  let ?u = "strip_with c_isspace t"
  from drop_underscores_set[OF t cs] c have "c \<in> set t" by auto
  moreover have "\<not> c_isspace c" using c cmp_not_float_char by blast
  ultimately have cu: "c \<in> set ?u" by (rule strip_with_keeps)
  have nd: "\<not> is_digit c" using c cmp_not_float_char by blast
  have nc: "c \<notin> set ''+-.eE''" using c by auto
  have lc: "lower_char c = c" using c cmp_not_float_char by auto
  have nl: "c \<notin> set ''infinityan''" using c by auto
  from p show False
  proof
    assume "parse_decimal ?u \<noteq> None"
    then obtain x where "parse_decimal ?u = Some x" by auto
    from parse_decimal_set[OF this cu] nd nc show False by blast
  next
    assume "parse_inf_nan ?u \<noteq> None"
    then obtain f where "parse_inf_nan ?u = Some f" by auto
    from parse_inf_nan_set[OF this cu] nl lc c show False by auto
  qed
qed

section \<open>Properties of the float model\<close>

lemma round_half_even_near: "\<bar>of_int (round_half_even x) - x\<bar> \<le> 1 / 2"
proof -
  have "of_int \<lfloor>x\<rfloor> \<le> x" "x < of_int \<lfloor>x\<rfloor> + 1" by linarith+
  then show ?thesis by (auto simp: round_half_even_def Let_def)
qed

lemma pow2_pos: "0 < pow2 k"
  by (simp add: pow2_def)

lemma pow2_Suc: "pow2 (k + 1) = 2 * pow2 k"
proof (cases "0 \<le> k")
  case True
  then have "nat (k + 1) = Suc (nat k)" by simp
  with True show ?thesis by (simp add: pow2_def)
next
  case False
  then have "nat (- k) = Suc (nat (- (k + 1)))" by simp
  with False show ?thesis by (simp add: pow2_def)
qed

lemma bit_length_nonneg: "0 \<le> bit_length n"
proof (induction n rule: bit_length.induct)
  case (1 n)
  then show ?case by (cases "n \<le> 0") (simp_all add: bit_length.simps[of n])
qed

lemma bit_length_pos: "0 < n \<Longrightarrow> 0 < bit_length n"
  using bit_length_nonneg[of "n div 2"] by (simp add: bit_length.simps[of n])

lemma bit_length_bounds:
  "0 < n \<Longrightarrow> 2 ^ nat (bit_length n - 1) \<le> n \<and> n < 2 ^ nat (bit_length n)"
proof (induction n rule: bit_length.induct)
  case (1 n)
  show ?case
  proof (cases "n = 1")
    case True
    have "bit_length 0 = 0" by (simp add: bit_length.simps[of 0])
    then have "bit_length 1 = 1" by (simp add: bit_length.simps[of 1])
    with True show ?thesis by simp
  next
    case False
    with "1.prems" have h: "0 < n div 2" by simp
    let ?l = "bit_length (n div 2)"
    from "1.IH" "1.prems" h
    have ih: "2 ^ nat (?l - 1) \<le> n div 2" "n div 2 < 2 ^ nat ?l" by simp_all
    have l: "0 < ?l" using h by (rule bit_length_pos)
    have bl: "bit_length n = 1 + ?l" using "1.prems" by (simp add: bit_length.simps[of n])
    from l have e: "nat (1 + ?l) = Suc (nat ?l)" "nat ?l = Suc (nat (?l - 1))" by simp_all
    have "(2::int) ^ nat ?l = 2 * 2 ^ nat (?l - 1)" by (simp only: e(2) power_Suc)
    also have "\<dots> \<le> 2 * (n div 2)" using ih(1) by simp
    also have "\<dots> \<le> n" by simp
    finally have lo: "2 ^ nat (bit_length n - 1) \<le> n" by (simp add: bl)
    from ih(2) have "n div 2 + 1 \<le> 2 ^ nat ?l" by simp
    then have "2 * (n div 2) + 2 \<le> 2 * 2 ^ nat ?l" by simp
    moreover have "n < 2 * (n div 2) + 2" by linarith
    ultimately have "n < 2 * 2 ^ nat ?l" by linarith
    then have hi: "n < 2 ^ nat (bit_length n)" by (simp only: bl e(1) power_Suc)
    from lo hi show ?thesis ..
  qed
qed

lemma ilog2_bounds:
  assumes "0 < q"
  shows "pow2 (ilog2 q) \<le> q \<and> q < pow2 (ilog2 q + 1)"
proof (cases "1 \<le> q")
  case True
  let ?n = "\<lfloor>q\<rfloor>"
  let ?l = "bit_length ?n"
  from True have n: "0 < ?n" by simp
  from bit_length_bounds[OF n] have b: "2 ^ nat (?l - 1) \<le> ?n" "?n < 2 ^ nat ?l" by blast+
  from n have l: "0 < ?l" by (rule bit_length_pos)
  have k: "ilog2 q = ?l - 1" using True by (simp add: ilog2_def)
  have nq: "of_int ?n \<le> q" "q < of_int ?n + 1" by linarith+
  have lo: "pow2 (?l - 1) = of_int (2 ^ nat (?l - 1))" using l by (simp add: pow2_def)
  have hi: "pow2 (?l - 1 + 1) = of_int (2 ^ nat ?l)" using l by (simp add: pow2_def)
  from b(1) have b1: "(of_int (2 ^ nat (?l - 1)) :: rat) \<le> of_int ?n" by (simp only: of_int_le_iff)
  have "pow2 (ilog2 q) = of_int (2 ^ nat (?l - 1))" by (simp only: k lo)
  also note b1
  also note nq(1)
  finally have 1: "pow2 (ilog2 q) \<le> q" .
  from b(2) have "?n + 1 \<le> 2 ^ nat ?l" by linarith
  then have "(of_int (?n + 1) :: rat) \<le> of_int (2 ^ nat ?l)" by (simp only: of_int_le_iff)
  then have b2: "(of_int ?n :: rat) + 1 \<le> of_int (2 ^ nat ?l)" by simp
  have h: "pow2 (ilog2 q + 1) = of_int (2 ^ nat ?l)" by (simp only: k hi)
  note nq(2)
  also note b2
  finally have 2: "q < pow2 (ilog2 q + 1)" by (simp only: h)
  from 1 2 show ?thesis ..
next
  case False
  let ?x = "1 / q"
  let ?n = "\<lceil>?x\<rceil> - 1"
  let ?l = "bit_length ?n"
  from False assms have x: "1 < ?x" by simp
  then have c: "2 \<le> \<lceil>?x\<rceil>" by linarith
  then have n: "0 < ?n" by simp
  from bit_length_bounds[OF n] have b: "2 ^ nat (?l - 1) \<le> ?n" "?n < 2 ^ nat ?l" by blast+
  from n have l: "0 < ?l" by (rule bit_length_pos)
  have k: "ilog2 q = - ?l" using False by (simp add: ilog2_def)
  have nx: "of_int ?n < ?x" "?x \<le> of_int ?n + 1" by linarith+
  have lo: "pow2 (- ?l) = 1 / of_int (2 ^ nat ?l)" using l by (simp add: pow2_def)
  have hi: "pow2 (- ?l + 1) = 1 / of_int (2 ^ nat (?l - 1))"
  proof (cases "?l = 1")
    case True then show ?thesis by (simp add: pow2_def)
  next
    case False
    with l have "nat (?l - 1) = nat (- (- ?l + 1))" "\<not> (0 \<le> - ?l + 1)" by simp_all
    then show ?thesis by (simp add: pow2_def)
  qed
  from b(2) have "?n + 1 \<le> 2 ^ nat ?l" by linarith
  then have "(of_int (?n + 1) :: rat) \<le> of_int (2 ^ nat ?l)" by (simp only: of_int_le_iff)
  then have b2: "(of_int ?n :: rat) + 1 \<le> of_int (2 ^ nat ?l)" by simp
  note nx(2)
  also note b2
  finally have "?x \<le> of_int (2 ^ nat ?l)" .
  with assms have 1: "1 / of_int (2 ^ nat ?l) \<le> q" by (simp add: field_simps)
  from b(1) have b1: "(of_int (2 ^ nat (?l - 1)) :: rat) \<le> of_int ?n" by (simp only: of_int_le_iff)
  note b1
  also note nx(1)
  finally have "of_int (2 ^ nat (?l - 1)) < ?x" .
  with assms have 2: "q < 1 / of_int (2 ^ nat (?l - 1))" by (simp add: field_simps)
  from 1 2 show ?thesis by (simp only: k lo hi)
qed

lemma pow2_powi: "pow2 k = 2 powi k"
  by (simp add: pow2_def power_int_def inverse_eq_divide power_one_over)

lemma pow2_add: "pow2 (a + b) = pow2 a * pow2 b"
  by (simp add: pow2_powi power_int_add)

lemma pow2_mono: "a \<le> b \<Longrightarrow> pow2 a \<le> pow2 b"
  by (simp add: pow2_powi power_int_increasing)

lemma pow2_strict_mono: "a < b \<Longrightarrow> pow2 a < pow2 b"
  by (simp add: pow2_powi power_int_strict_increasing)

lemma int_le_of_rat_near:
  assumes "\<bar>of_int m - x\<bar> \<le> 1 / 2" and "(x::rat) < of_int b"
  shows "m \<le> b"
proof -
  from assms have "(of_int m :: rat) < of_int b + 1" by linarith
  then have "(of_int m :: rat) < of_int (b + 1)" by simp
  then have "m < b + 1" by (simp only: of_int_less_iff)
  then show ?thesis by simp
qed

lemma int_ge_of_rat_near:
  assumes "\<bar>of_int m - x\<bar> \<le> 1 / 2" and "of_int b \<le> (x::rat)"
  shows "b \<le> m"
proof -
  from assms have "(of_int b :: rat) - 1 < of_int m" by linarith
  then have "(of_int (b - 1) :: rat) < of_int m" by simp
  then have "b - 1 < m" by (simp only: of_int_less_iff)
  then show ?thesis by simp
qed

text \<open>The test for an infinity in \<open>to_double\<close> is the test that the rounded value reaches
  \<open>2\<^sup>1\<^sup>0\<^sup>2\<^sup>4\<close>.\<close>

lemma to_double_overflow_test:
  assumes q: "0 < q"
    and p: "p = max (ilog2 q - 52) (- 1074)"
    and m: "m = round_half_even (q / pow2 p)"
  shows "(971 < p \<or> (p = 971 \<and> m = 2 ^ 53)) \<longleftrightarrow> pow2 1024 \<le> of_int m * pow2 p"
proof -
  let ?k = "ilog2 q"
  let ?x = "q / pow2 p"
  have pp: "0 < pow2 p" by (rule pow2_pos)
  have near: "\<bar>of_int m - ?x\<bar> \<le> 1 / 2" unfolding m by (rule round_half_even_near)
  from ilog2_bounds[OF q] have kb: "pow2 ?k \<le> q" "q < pow2 (?k + 1)" by blast+
  have e52: "pow2 52 = of_int (2 ^ 52)" and e53: "pow2 53 = of_int (2 ^ 53)"
    by (simp_all add: pow2_def)
  have "?k + 1 \<le> p + 53" using p by simp
  then have "pow2 (?k + 1) \<le> pow2 (p + 53)" by (rule pow2_mono)
  with kb(2) have "q < pow2 (p + 53)" by simp
  then have "q < pow2 p * pow2 53" by (simp only: pow2_add)
  with pp have "?x < pow2 53" by (simp add: field_simps)
  then have "?x < of_int (2 ^ 53)" by (simp only: e53)
  with near have m_le: "m \<le> 2 ^ 53" by (rule int_le_of_rat_near)
  have m_ge: "2 ^ 52 \<le> m" if "- 1074 < p"
  proof -
    from that p have "?k = p + 52" by simp
    then have "pow2 ?k = pow2 p * pow2 52" by (simp only: pow2_add)
    with kb(1) have "pow2 p * pow2 52 \<le> q" by simp
    with pp have "pow2 52 \<le> ?x" by (simp add: field_simps)
    then have "of_int (2 ^ 52) \<le> ?x" by (simp only: e52)
    with near show ?thesis by (rule int_ge_of_rat_near)
  qed
  have m0: "0 \<le> (of_int m :: rat)"
  proof -
    have "0 \<le> ?x" using q pp by simp
    then have "of_int 0 \<le> ?x" by simp
    with near have "0 \<le> m" by (rule int_ge_of_rat_near)
    then show ?thesis by simp
  qed
  consider "971 < p" | "p = 971" | "p < 971" by linarith
  then show ?thesis
  proof cases
    case 1
    then have "2 ^ 52 \<le> m" using m_ge by simp
    then have a: "(of_int (2 ^ 52) :: rat) \<le> of_int m" by (simp only: of_int_le_iff)
    from 1 have "pow2 972 \<le> pow2 p" by (simp add: pow2_mono)
    with a pp have "of_int (2 ^ 52) * pow2 972 \<le> of_int m * pow2 p"
      by (intro mult_mono) (simp_all add: pow2_pos less_imp_le)
    moreover have "pow2 1024 = of_int (2 ^ 52) * pow2 972"
      using pow2_add[of 52 972] by (simp only: e52) simp
    ultimately show ?thesis using 1 by simp
  next
    case 2
    have e: "pow2 1024 = of_int (2 ^ 53) * pow2 971"
      using pow2_add[of 53 971] by (simp only: e53) simp
    have "pow2 1024 \<le> of_int m * pow2 p \<longleftrightarrow> (of_int (2 ^ 53) :: rat) \<le> of_int m"
      using pow2_pos[of 971] by (simp only: e 2 mult_le_cancel_right_pos)
    also have "\<dots> \<longleftrightarrow> 2 ^ 53 \<le> m" by (simp only: of_int_le_iff)
    also have "\<dots> \<longleftrightarrow> m = 2 ^ 53" using m_le by auto
    finally show ?thesis using 2 by simp
  next
    case 3
    from m_le have a: "(of_int m :: rat) \<le> of_int (2 ^ 53)" by (simp only: of_int_le_iff)
    from 3 have "pow2 p \<le> pow2 970" by (simp add: pow2_mono)
    with a m0 have "of_int m * pow2 p \<le> of_int (2 ^ 53) * pow2 970"
      by (intro mult_mono) (simp_all add: pow2_pos less_imp_le)
    moreover have "pow2 1023 = of_int (2 ^ 53) * pow2 970"
      using pow2_add[of 53 970] by (simp only: e53) simp
    moreover have "pow2 1023 < pow2 1024" by (simp add: pow2_strict_mono)
    ultimately have "of_int m * pow2 p < pow2 1024" by simp
    with 3 show ?thesis by simp
  qed
qed

text \<open>A finite result of \<open>to_double\<close> keeps the sign and lies within half a unit in the last
  place of the exact value.\<close>

lemma to_double_near:
  assumes "0 < q" and "to_double neg q = Finite s v"
  shows "s = neg \<and> \<bar>v - q\<bar> \<le> pow2 (max (ilog2 q - 52) (- 1074)) / 2"
proof -
  let ?p = "max (ilog2 q - 52) (- 1074)"
  let ?m = "round_half_even (q / pow2 ?p)"
  have pp: "0 < pow2 ?p" by (rule pow2_pos)
  from assms have sv: "s = neg" "v = of_int ?m * pow2 ?p"
    by (auto simp: to_double_def Let_def split: if_splits)
  have "\<bar>of_int ?m - q / pow2 ?p\<bar> \<le> 1 / 2" by (rule round_half_even_near)
  then have "\<bar>of_int ?m - q / pow2 ?p\<bar> * pow2 ?p \<le> 1 / 2 * pow2 ?p"
    using pp by (simp only: mult_le_cancel_right_pos)
  moreover have "\<bar>of_int ?m - q / pow2 ?p\<bar> * pow2 ?p = \<bar>of_int ?m * pow2 ?p - q\<bar>"
  proof -
    have "\<bar>of_int ?m - q / pow2 ?p\<bar> * pow2 ?p = \<bar>(of_int ?m - q / pow2 ?p) * pow2 ?p\<bar>"
      using pp by (simp add: abs_mult)
    also have "(of_int ?m - q / pow2 ?p) * pow2 ?p = of_int ?m * pow2 ?p - q"
      using pp by (simp add: field_simps)
    finally show ?thesis .
  qed
  ultimately show ?thesis using sv by simp
qed

text \<open>A whole number below \<open>2\<^sup>5\<^sup>3\<close> is a binary64 value: rounding leaves it as it is.\<close>

lemma round_half_even_of_int: "round_half_even (of_int z) = z"
  by (simp add: round_half_even_def)

lemma to_double_exact_int:
  assumes "0 \<le> n" and "n < 2 ^ 53"
  shows "to_double neg (of_int n) = Finite neg (of_int n)"
proof (cases "n = 0")
  case True
  then show ?thesis by (simp add: to_double_def)
next
  case False
  with assms(1) have n: "0 < n" by simp
  let ?q = "of_int n :: rat"
  let ?k = "ilog2 ?q"
  have q1: "1 \<le> ?q" using n by simp
  then have q0: "0 < ?q" by simp
  from ilog2_bounds[OF q0] have kb: "pow2 ?k \<le> ?q" "?q < pow2 (?k + 1)" by blast+
  have e53: "pow2 53 = of_int (2 ^ 53)" by (simp add: pow2_def)
  have q53: "?q < pow2 53" using assms(2) by (simp only: e53 of_int_less_iff)
  have k52: "?k \<le> 52"
  proof (rule ccontr)
    assume "\<not> ?k \<le> 52"
    then have "53 \<le> ?k" by simp
    then have "pow2 53 \<le> pow2 ?k" by (rule pow2_mono)
    with kb(1) q53 show False by simp
  qed
  have k0: "0 \<le> ?k"
  proof (rule ccontr)
    assume "\<not> 0 \<le> ?k"
    then have "?k + 1 \<le> 0" by simp
    then have "pow2 (?k + 1) \<le> pow2 0" by (rule pow2_mono)
    then have "pow2 (?k + 1) \<le> 1" by (simp add: pow2_def)
    with kb(2) q1 show False by simp
  qed
  let ?j = "nat (52 - ?k)"
  have p: "max (?k - 52) (- 1074) = ?k - 52" using k0 by simp
  have pp: "pow2 (?k - 52) = 1 / 2 ^ ?j"
  proof (cases "?k = 52")
    case True
    then show ?thesis by (simp add: pow2_def)
  next
    case False
    with k52 have "\<not> 0 \<le> ?k - 52" "nat (- (?k - 52)) = ?j" by simp_all
    then show ?thesis by (simp add: pow2_def)
  qed
  have "?q / pow2 (?k - 52) = of_int (n * 2 ^ ?j)" by (simp add: pp)
  then have m: "round_half_even (?q / pow2 (?k - 52)) = n * 2 ^ ?j"
    by (simp only: round_half_even_of_int)
  have v: "of_int (n * 2 ^ ?j) * pow2 (?k - 52) = ?q" by (simp add: pp)
  have no: "\<not> (971 < ?k - 52 \<or> (?k - 52 = 971 \<and> n * 2 ^ ?j = 2 ^ 53))" using k52 by simp
  have q_ne: "?q \<noteq> 0" using n by simp
  show ?thesis
    unfolding to_double_def Let_def p m using q_ne no v by simp
qed

lemma py_float_text_value:
  assumes "text_value s = Some (neg, q)"
  shows "py_float s = Inr (to_double neg q)"
proof -
  from assms obtain t where t: "drop_underscores (CHR 0x00) s = Some t"
    by (auto simp: text_value_def split: option.splits)
  let ?u = "strip_with c_isspace t"
  from assms t obtain m e where pd: "parse_decimal ?u = Some (neg, m, e)" and q: "q = dec_value m e"
    by (auto simp: text_value_def)
  have "parse_decimal [] = None" by (simp add: parse_decimal_def)
  with pd have "?u \<noteq> []" by auto
  with t pd q show ?thesis by (simp add: py_float_def Let_def)
qed

text \<open>Values that CPython 3.11 gives, among them a tie that goes to the even neighbour,
  a decimal that rounds up to \<open>1.0\<close> and the sign of a zero.\<close>

lemma py_float_examples:
  "py_float ''0.1'' = Inr (Finite False (3602879701896397 / 36028797018963968))"
  "py_float ''0.35'' = Inr (Finite False (3152519739159347 / 9007199254740992))"
  "py_float ''9007199254740993'' = Inr (Finite False 9007199254740992)"
  "py_float ''9007199254740995'' = Inr (Finite False 9007199254740996)"
  "py_float ''1e23'' = Inr (Finite False 99999999999999991611392)"
  "py_float ''0.99999999999999999999'' = Inr (Finite False 1)"
  "py_float ''+.5e-3'' = Inr (Finite False (1152921504606847 / 2305843009213693952))"
  "py_float '' 1_0. '' = Inr (Finite False 10)"
  "py_float ''-0.0'' = Inr (Finite True 0)"
  "py_float ''-Infinity'' = Inr (Infinity True)"
  "py_float ''NaN'' = Inr NaN"
  "py_float ''1_.5'' = Inl ValueError"
  "py_float ''1e'' = Inl ValueError"
  "py_float ''.'' = Inl ValueError"
  "py_float ''0x10'' = Inl ValueError"
  "py_float ''None'' = Inl ValueError"
  by code_simp+

lemma py_format_f_examples:
  "py_format_f (Finite False (360850920143061 / 35184372088832)) 2 = Inr ''10.26''"
  "py_format_f (Finite False (1 / 8)) 2 = Inr ''0.12''"
  "py_format_f (Finite False (5 / 2)) 0 = Inr ''2''"
  "py_format_f (Finite True (1 / 1024)) 2 = Inr ''-0.00''"
  "py_format_f (Infinity True) 2 = Inr ''-inf''"
  "py_format_f (Finite False 1) (- 1) = Inl ValueError"
  "py_format_f (Finite False 1) 2147483648 = Inl ValueError"
  by code_simp+

lemma py_int_examples:
  "py_int (SStr '' -1 '') = Inr (- 1)"
  "py_int (SStr ''+2'') = Inr 2"
  "py_int (SStr ''1_0'') = Inr 10"
  "py_int (SStr ''010'') = Inr 10"
  "py_int (SStr ''- 1'') = Inl ValueError"
  "py_int (SStr ''1.0'') = Inl ValueError"
  "py_int (SStr []) = Inl ValueError"
  "py_int SNone = Inl TypeError"
  by code_simp+

section \<open>Properties of the formatter\<close>

lemma format_cmp:
  "CHR ''>'' \<in> set s \<or> CHR ''<'' \<in> set s \<Longrightarrow>
   format_number_with_decimals (PyStr s) d = Inr (py_strip s)"
proof -
  assume a: "CHR ''>'' \<in> set s \<or> CHR ''<'' \<in> set s"
  have 1: "py_strip s \<noteq> []" using a by (rule cmp_strip_nonempty)
  have 2: "py_strip s \<noteq> '' ''" by (rule py_strip_not_space)
  have 3: "CHR ''>'' \<in> set (py_strip s) \<or> CHR ''<'' \<in> set (py_strip s)"
    using a by (rule cmp_in_strip)
  show ?thesis
    using 1 2 3 by (simp add: format_number_with_decimals_def Let_def)
qed

lemma bind_res_simps [simp]:
  "bind_res (Inl e) f = Inl e" "bind_res (Inr v) f = f v"
  by (simp_all add: bind_res_def)

lemma try_except_simps [simp]:
  "try_except (Inr v) cs h = Inr v"
  "try_except (Inl e) cs h = (if e \<in> set cs then h else Inl e)"
  by (simp_all add: try_except_def)

lemma format_blank:
  "\<forall>c\<in>set s. py_isspace c \<Longrightarrow> format_number_with_decimals (PyStr s) d = Inr '' ''"
  by (simp add: format_number_with_decimals_def py_strip_Nil_iff)

lemma format_cmp_stripped:
  "py_strip s \<noteq> [] \<Longrightarrow> CHR ''>'' \<in> set (py_strip s) \<or> CHR ''<'' \<in> set (py_strip s) \<Longrightarrow>
   format_number_with_decimals (PyStr s) d = Inr (py_strip s)"
  using py_strip_not_space[of s] by (simp add: format_number_with_decimals_def Let_def)

lemma format_plain:
  assumes "py_strip s \<noteq> []"
    and "CHR ''>'' \<notin> set (py_strip s)" and "CHR ''<'' \<notin> set (py_strip s)"
  shows "format_number_with_decimals (PyStr s) d =
     try_except
       (bind_res (py_float (py_strip s)) (\<lambda>num.
          if d = SStr ''default'' then
            bind_res (py_int_of_float num) (\<lambda>i.
              if float_eq_int num i then Inr (str_of_int i) else Inr (py_strip s))
          else
            try_except (bind_res (py_int d) (\<lambda>decimals. py_format_f num decimals))
              [ValueError] (Inr (py_strip s))))
       [ValueError, TypeError] (Inr (py_strip s))"
  using assms py_strip_not_space[of s] by (simp add: format_number_with_decimals_def Let_def)

lemma format_non_numeric:
  assumes "py_strip s \<noteq> []" and "py_float (py_strip s) = Inl e"
  shows "format_number_with_decimals (PyStr s) d = Inr (py_strip s)"
proof (cases "CHR ''>'' \<in> set (py_strip s) \<or> CHR ''<'' \<in> set (py_strip s)")
  case True
  with assms(1) show ?thesis by (rule format_cmp_stripped)
next
  case False
  from assms(2) have "e = ValueError" by (rule py_float_error)
  with False assms show ?thesis by (simp add: format_plain)
qed

lemma py_int_error: "py_int d = Inl e \<Longrightarrow> e = ValueError \<or> e = TypeError"
  by (cases d) (auto simp: Let_def split: prod.splits option.splits if_splits)

lemma py_int_default: "py_int (SStr ''default'') = Inl ValueError"
  by code_simp

lemma format_bad_setting:
  assumes "py_strip s \<noteq> []" and "d \<noteq> SStr ''default''" and "py_int d = Inl e"
  shows "format_number_with_decimals (PyStr s) d = Inr (py_strip s)"
proof (cases "py_float (py_strip s)")
  case (Inl e')
  with assms(1) show ?thesis by (rule format_non_numeric)
next
  case (Inr num)
  then have nc: "CHR ''>'' \<notin> set (py_strip s)" "CHR ''<'' \<notin> set (py_strip s)"
    by (simp_all add: py_float_no_cmp)
  from assms(3) have "e = ValueError \<or> e = TypeError" by (rule py_int_error)
  with nc Inr assms show ?thesis by (auto simp: format_plain)
qed

lemma py_format_f_negative: "n < 0 \<Longrightarrow> py_format_f num n = Inl ValueError"
  by (simp add: py_format_f_def)

lemma format_negative_decimals:
  assumes "py_float (py_strip s) = Inr num" and "py_int d = Inr n" and "n < 0"
  shows "format_number_with_decimals (PyStr s) d = Inr (py_strip s)"
proof -
  from assms(1) have ne: "py_strip s \<noteq> []" using py_float_Nil by auto
  from assms(1) have nc: "CHR ''>'' \<notin> set (py_strip s)" "CHR ''<'' \<notin> set (py_strip s)"
    by (simp_all add: py_float_no_cmp)
  from assms(2) have nd: "d \<noteq> SStr ''default''" using py_int_default by auto
  from ne nc nd assms show ?thesis by (simp add: format_plain py_format_f_negative)
qed

lemma float_eq_int_trunc:
  "float_eq_int (Finite neg q) (if neg then - \<lfloor>q\<rfloor> else \<lfloor>q\<rfloor>) \<longleftrightarrow> of_int \<lfloor>q\<rfloor> = q"
  by auto

lemma format_default_finite:
  assumes "py_float (py_strip s) = Inr (Finite neg q)"
  shows "format_number_with_decimals (PyStr s) (SStr ''default'') =
           Inr (if of_int \<lfloor>q\<rfloor> = q then str_of_int (if neg then - \<lfloor>q\<rfloor> else \<lfloor>q\<rfloor>)
                else py_strip s)"
proof -
  from assms(1) have ne: "py_strip s \<noteq> []" using py_float_Nil by auto
  from assms(1) have nc: "CHR ''>'' \<notin> set (py_strip s)" "CHR ''<'' \<notin> set (py_strip s)"
    by (simp_all add: py_float_no_cmp)
  from ne nc assms show ?thesis
    by (simp add: format_plain float_eq_int_trunc del: float_eq_int.simps)
qed

lemma format_default_nan:
  assumes "py_float (py_strip s) = Inr NaN"
  shows "format_number_with_decimals (PyStr s) (SStr ''default'') = Inr (py_strip s)"
proof -
  from assms(1) have ne: "py_strip s \<noteq> []" using py_float_Nil by auto
  from assms(1) have nc: "CHR ''>'' \<notin> set (py_strip s)" "CHR ''<'' \<notin> set (py_strip s)"
    by (simp_all add: py_float_no_cmp)
  from ne nc assms show ?thesis by (simp add: format_plain)
qed

lemma format_default_infinity:
  assumes "py_float (py_strip s) = Inr (Infinity neg)"
  shows "format_number_with_decimals (PyStr s) (SStr ''default'') = Inl OverflowError"
proof -
  from assms(1) have ne: "py_strip s \<noteq> []" using py_float_Nil by auto
  from assms(1) have nc: "CHR ''>'' \<notin> set (py_strip s)" "CHR ''<'' \<notin> set (py_strip s)"
    by (simp_all add: py_float_no_cmp)
  from ne nc assms show ?thesis by (simp add: format_plain)
qed

lemma format_strips_first:
  "format_number_with_decimals (PyStr (py_strip s)) d = format_number_with_decimals (PyStr s) d"
  by (simp add: format_number_with_decimals_def py_strip_idem)

lemma digit_char_is_digit: "d < 10 \<Longrightarrow> is_digit (digit_char d)"
proof -
  assume "d < 10"
  then have "d < length ''0123456789''" by simp
  then have "''0123456789'' ! d \<in> set ''0123456789''" by (rule nth_mem)
  then show ?thesis by (simp only: is_digit_def digit_char_def)
qed

lemma str_of_nonneg_digits: "c \<in> set (str_of_nonneg n) \<Longrightarrow> is_digit c"
proof (induction n rule: str_of_nonneg.induct)
  case (1 n)
  show ?case
  proof (cases "n < 10")
    case True
    with "1.prems" have "c = digit_char (nat n)" by (simp add: str_of_nonneg.simps[of n])
    moreover from True have "nat n < 10" by simp
    ultimately show ?thesis by (simp add: digit_char_is_digit)
  next
    case False
    with "1.prems"
    have "c \<in> set (str_of_nonneg (n div 10)) \<or> c = digit_char (nat (n mod 10))"
      by (auto simp add: str_of_nonneg.simps[of n])
    then show ?thesis
    proof
      assume "c \<in> set (str_of_nonneg (n div 10))"
      with False "1.IH" show ?thesis by simp
    next
      assume c: "c = digit_char (nat (n mod 10))"
      have "nat (n mod 10) < 10" by simp
      with c show ?thesis by (simp add: digit_char_is_digit)
    qed
  qed
qed

lemma str_of_int_no_point: "CHR ''.'' \<notin> set (str_of_int i)"
proof
  assume a: "CHR ''.'' \<in> set (str_of_int i)"
  have nd: "\<not> is_digit (CHR ''.'')" by (simp add: is_digit_def)
  from a have "CHR ''.'' \<in> set (str_of_nonneg (- i)) \<or> CHR ''.'' \<in> set (str_of_nonneg i)"
    by (auto simp: str_of_int_def split: if_splits)
  with nd show False using str_of_nonneg_digits by blast
qed

lemma whole_value_exact:
  "whole_value (Finite neg q) = Some i \<Longrightarrow> of_int i = signed neg q"
  by (auto split: if_splits)

lemma format_default:
  assumes "py_float (py_strip s) = Inr num" and "\<not> is_infinite num"
  shows "format_number_with_decimals (PyStr s) (SStr ''default'') =
           Inr (case whole_value num of Some i \<Rightarrow> str_of_int i | None \<Rightarrow> py_strip s)"
proof (cases num)
  case (Finite neg q)
  with assms(1) have "py_float (py_strip s) = Inr (Finite neg q)" by simp
  from format_default_finite[OF this] Finite show ?thesis by simp
next
  case (Infinity neg)
  with assms(2) show ?thesis by simp
next
  case NaN
  with assms(1) have "py_float (py_strip s) = Inr NaN" by simp
  from format_default_nan[OF this] NaN show ?thesis by simp
qed

lemma whole_value_eq: "whole_value num = Some i \<Longrightarrow> float_eq_int num i"
  by (cases num) (auto split: if_splits)

lemma format_default_exact_text:
  assumes "text_value (py_strip s) = Some (neg, of_int n)" and "0 \<le> n" and "n < 2 ^ 53"
  shows "format_number_with_decimals (PyStr s) (SStr ''default'') =
           Inr (str_of_int (if neg then - n else n))"
proof -
  from py_float_text_value[OF assms(1)] to_double_exact_int[OF assms(2,3)]
  have "py_float (py_strip s) = Inr (Finite neg (of_int n))" by simp
  from format_default_finite[OF this] show ?thesis by simp
qed

section \<open>Properties of the classifier\<close>

lemma lit_values:
  "lit_1_0 = Finite False 1"
  "lit_0_35 = Finite False (3152519739159347 / 9007199254740992)"
  "lit_8_0 = Finite False 8"
  "lit_0_5 = Finite False (1 / 2)"
  by code_simp+



lemma calculate_comment_parsed:
  assumes "numeric_field r ''nil_result'' = Inr nil_val"
    and "numeric_field r ''tb1_nil'' = Inr tb1_nil"
    and "numeric_field r ''tb2_nil'' = Inr tb2_nil"
    and "numeric_field r ''mit_nil'' = Inr mit_nil"
  shows "calculate_comment r =
           Inr (comment_of (py_upper (row_get_str r ''qft_result'' [])) nil_val tb1_nil tb2_nil mit_nil)"
  using assms by (simp add: calculate_comment_def)










lemma not_less_8_iff_le:
  "nil_val \<noteq> NaN \<Longrightarrow> \<not> float_less lit_8_0 nil_val \<longleftrightarrow> float_le nil_val lit_8_0"
  by (cases nil_val) (auto simp: lit_values)

section \<open>The claims of the specification\<close>







text \<open>
  C3: on a record whose category in upper case is \<^verbatim>\<open>POS\<close> or \<^verbatim>\<open>POS*\<close> and whose four numeric
  fields parse, the comment is empty when \<^verbatim>\<open>tb1_nil >= 1.0\<close> or \<^verbatim>\<open>tb2_nil >= 1.0\<close>;
  otherwise, with \<^verbatim>\<open>is_wp_tb1 = 0.35 <= tb1_nil < 1.0\<close> and \<^verbatim>\<open>is_wp_tb2 = 0.35 <= tb2_nil < 1.0\<close>,
  it is \<^verbatim>\<open>WP (Both)\<close> when both hold, \<^verbatim>\<open>WP (TB1)\<close> or \<^verbatim>\<open>WP (TB2)\<close> when only one holds and
  empty when neither does. The comparisons are those of floats, with the literals
  \<^verbatim>\<open>1.0\<close> and \<^verbatim>\<open>0.35\<close> as binary64 values.
\<close>

theorem C3_positive_branch:
  assumes "py_upper (row_get_str r ''qft_result'' []) = ''POS'' \<or>
           py_upper (row_get_str r ''qft_result'' []) = ''POS*''"
    and "numeric_field r ''nil_result'' = Inr nil_val"
    and "numeric_field r ''tb1_nil'' = Inr tb1_nil"
    and "numeric_field r ''tb2_nil'' = Inr tb2_nil"
    and "numeric_field r ''mit_nil'' = Inr mit_nil"
    and "is_wp_tb1 = (float_le lit_0_35 tb1_nil \<and> float_less tb1_nil lit_1_0)"
    and "is_wp_tb2 = (float_le lit_0_35 tb2_nil \<and> float_less tb2_nil lit_1_0)"
  shows "calculate_comment r =
           Inr (if float_le lit_1_0 tb1_nil \<or> float_le lit_1_0 tb2_nil then []
                else if is_wp_tb1 \<and> is_wp_tb2 then ''WP (Both)''
                else if is_wp_tb1 \<and> \<not> is_wp_tb2 then ''WP (TB1)''
                else if is_wp_tb2 \<and> \<not> is_wp_tb1 then ''WP (TB2)''
                else [])"
proof -
  from calculate_comment_parsed[OF assms(2-5)]
  have "calculate_comment r =
          Inr (comment_of (py_upper (row_get_str r ''qft_result'' [])) nil_val tb1_nil tb2_nil mit_nil)" .
  with assms(1,6,7) show ?thesis by (auto simp: comment_of_def Let_def)
qed

theorem C3_witness:
  "py_upper (row_get_str [''qft_result'' \<mapsto> PyStr ''POS'', ''tb1_nil'' \<mapsto> PyStr ''0.5'',
                          ''tb2_nil'' \<mapsto> PyStr ''0.2''] ''qft_result'' []) = ''POS''
   \<and> calculate_comment [''qft_result'' \<mapsto> PyStr ''POS'', ''tb1_nil'' \<mapsto> PyStr ''0.5'',
                        ''tb2_nil'' \<mapsto> PyStr ''0.2''] = Inr ''WP (TB1)''"
proof -
  let ?r = "[''qft_result'' \<mapsto> PyStr ''POS'', ''tb1_nil'' \<mapsto> PyStr ''0.5'',
             ''tb2_nil'' \<mapsto> PyStr ''0.2'']"
  have q: "py_upper (row_get_str ?r ''qft_result'' []) = ''POS''" by code_simp
  then have q': "py_upper (row_get_str ?r ''qft_result'' []) = ''POS'' \<or>
                 py_upper (row_get_str ?r ''qft_result'' []) = ''POS*''" by simp
  have n: "numeric_field ?r ''nil_result'' = Inr (Finite False 0)" by code_simp
  have a: "numeric_field ?r ''tb1_nil'' = Inr (Finite False (1 / 2))" by code_simp
  have b: "numeric_field ?r ''tb2_nil'' = Inr (Finite False (3602879701896397 / 18014398509481984))"
    by code_simp
  have m: "numeric_field ?r ''mit_nil'' = Inr (Finite False 0)" by code_simp
  from C3_positive_branch[OF q' n a b m refl refl]
  have "calculate_comment ?r = Inr ''WP (TB1)''" by (simp add: lit_values)
  with q show ?thesis by blast
qed

text \<open>
  C4, as the specification states it: on an indeterminate record whose fields parse, the
  comment is \<^verbatim>\<open>Low Mit\<close> only when \<^verbatim>\<open>nil_result <= 8.0\<close> and \<^verbatim>\<open>mit_nil < 0.5\<close>. The code
  tests \<^verbatim>\<open>mit_nil < 0.5\<close> in the \<^verbatim>\<open>elif\<close> of \<^verbatim>\<open>nil_val > 8.0\<close>, and \<^verbatim>\<open>float\<close> reads the text
  \<^verbatim>\<open>nan\<close> as a NaN, for which both \<^verbatim>\<open>nil_val > 8.0\<close> and \<^verbatim>\<open>nil_val <= 8.0\<close> are false: the
  record below gets \<^verbatim>\<open>Low Mit\<close> although \<^verbatim>\<open>nil_result <= 8.0\<close> does not hold.
\<close>

theorem C4_counterexample:
  "py_upper (row_get_str [''qft_result'' \<mapsto> PyStr ''IND'', ''nil_result'' \<mapsto> PyStr ''nan'',
                          ''mit_nil'' \<mapsto> PyStr ''0.1''] ''qft_result'' []) = ''IND''
   \<and> numeric_field [''qft_result'' \<mapsto> PyStr ''IND'', ''nil_result'' \<mapsto> PyStr ''nan'',
                    ''mit_nil'' \<mapsto> PyStr ''0.1''] ''nil_result'' = Inr NaN
   \<and> \<not> float_le NaN lit_8_0
   \<and> calculate_comment [''qft_result'' \<mapsto> PyStr ''IND'', ''nil_result'' \<mapsto> PyStr ''nan'',
                        ''mit_nil'' \<mapsto> PyStr ''0.1''] = Inr ''Low Mit''"
  by code_simp

text \<open>
  C4, amended: on a record whose category in upper case is \<^verbatim>\<open>IND\<close> and whose four numeric
  fields parse, the comment is \<^verbatim>\<open>High Nil\<close> whenever \<^verbatim>\<open>nil_result > 8.0\<close>, whatever
  \<^verbatim>\<open>mit_nil\<close> is; it is \<^verbatim>\<open>Low Mit\<close> exactly when \<^verbatim>\<open>nil_result > 8.0\<close> is false and
  \<^verbatim>\<open>mit_nil < 0.5\<close>; and it is empty otherwise. \<^verbatim>\<open>High Nil\<close> comes first when both
  conditions hold. Unless \<^verbatim>\<open>nil_result\<close> is a NaN, \<^verbatim>\<open>nil_result > 8.0\<close> is false exactly
  when \<^verbatim>\<open>nil_result <= 8.0\<close>.
\<close>

theorem C4_indeterminate_branch:
  assumes "py_upper (row_get_str r ''qft_result'' []) = ''IND''"
    and "numeric_field r ''nil_result'' = Inr nil_val"
    and "numeric_field r ''tb1_nil'' = Inr tb1_nil"
    and "numeric_field r ''tb2_nil'' = Inr tb2_nil"
    and "numeric_field r ''mit_nil'' = Inr mit_nil"
  shows "calculate_comment r =
           Inr (if float_less lit_8_0 nil_val then ''High Nil''
                else if float_less mit_nil lit_0_5 then ''Low Mit''
                else [])
         \<and> (nil_val \<noteq> NaN \<longrightarrow>
              (\<not> float_less lit_8_0 nil_val \<longleftrightarrow> float_le nil_val lit_8_0))"
proof
  from calculate_comment_parsed[OF assms(2-5)] assms(1)
  show "calculate_comment r =
           Inr (if float_less lit_8_0 nil_val then ''High Nil''
                else if float_less mit_nil lit_0_5 then ''Low Mit''
                else [])"
    by (simp add: comment_of_def)
next
  show "nil_val \<noteq> NaN \<longrightarrow> (\<not> float_less lit_8_0 nil_val \<longleftrightarrow> float_le nil_val lit_8_0)"
    using not_less_8_iff_le by blast
qed

theorem C4_witness:
  "py_upper (row_get_str [''qft_result'' \<mapsto> PyStr ''ind'', ''nil_result'' \<mapsto> PyStr ''9.0'',
                          ''mit_nil'' \<mapsto> PyStr ''0.1''] ''qft_result'' []) = ''IND''
   \<and> calculate_comment [''qft_result'' \<mapsto> PyStr ''ind'', ''nil_result'' \<mapsto> PyStr ''9.0'',
                        ''mit_nil'' \<mapsto> PyStr ''0.1''] = Inr ''High Nil''
   \<and> calculate_comment [''qft_result'' \<mapsto> PyStr ''IND'', ''nil_result'' \<mapsto> PyStr ''8.0'',
                        ''mit_nil'' \<mapsto> PyStr ''0.1''] = Inr ''Low Mit''"
proof -
  let ?r = "[''qft_result'' \<mapsto> PyStr ''ind'', ''nil_result'' \<mapsto> PyStr ''9.0'',
             ''mit_nil'' \<mapsto> PyStr ''0.1'']"
  let ?s = "[''qft_result'' \<mapsto> PyStr ''IND'', ''nil_result'' \<mapsto> PyStr ''8.0'',
             ''mit_nil'' \<mapsto> PyStr ''0.1'']"
  have q: "py_upper (row_get_str ?r ''qft_result'' []) = ''IND''" by code_simp
  have n: "numeric_field ?r ''nil_result'' = Inr (Finite False 9)" by code_simp
  have a: "numeric_field ?r ''tb1_nil'' = Inr (Finite False 0)" by code_simp
  have b: "numeric_field ?r ''tb2_nil'' = Inr (Finite False 0)" by code_simp
  have m: "numeric_field ?r ''mit_nil'' = Inr (Finite False (3602879701896397 / 36028797018963968))"
    by code_simp
  from C4_indeterminate_branch[OF q n a b m]
  have r: "calculate_comment ?r = Inr ''High Nil''" by (simp add: lit_values)
  have q': "py_upper (row_get_str ?s ''qft_result'' []) = ''IND''" by code_simp
  have n': "numeric_field ?s ''nil_result'' = Inr (Finite False 8)" by code_simp
  have a': "numeric_field ?s ''tb1_nil'' = Inr (Finite False 0)" by code_simp
  have b': "numeric_field ?s ''tb2_nil'' = Inr (Finite False 0)" by code_simp
  have m': "numeric_field ?s ''mit_nil'' = Inr (Finite False (3602879701896397 / 36028797018963968))"
    by code_simp
  from C4_indeterminate_branch[OF q' n' a' b' m']
  have s: "calculate_comment ?s = Inr ''Low Mit''" by (simp add: lit_values)
  from q r s show ?thesis by blast
qed

text \<open>
  C5: no exception of the classifier or of the formatter reaches the caller. The formatter
  does not keep to it. In default mode it evaluates \<^verbatim>\<open>int(num)\<close>, which raises
  \<^verbatim>\<open>OverflowError\<close> on an infinity, and the handler around it names only \<^verbatim>\<open>ValueError\<close>
  and \<^verbatim>\<open>TypeError\<close>: on the cell \<^verbatim>\<open>"inf"\<close> the exception leaves the function.
\<close>

theorem C5_overflow_escapes:
  "format_number_with_decimals (PyStr ''inf'') (SStr ''default'') = Inl OverflowError"
  by code_simp

text \<open>
  C6, as the specification states it: a value that contains \<^verbatim>\<open>>\<close> or \<^verbatim>\<open><\<close> is returned
  unchanged, whatever the decimals setting. The code strips the value first, so a
  padded comparison string does not come back unchanged: \<^verbatim>\<open>" >10.0"\<close> with the setting
  \<^verbatim>\<open>"2"\<close> is returned as \<^verbatim>\<open>">10.0"\<close>.
\<close>

theorem C6_counterexample:
  "CHR ''>'' \<in> set '' >10.0'' \<and>
   format_number_with_decimals (PyStr '' >10.0'') (SStr ''2'') \<noteq> Inr '' >10.0''"
  by code_simp

text \<open>
  C6, amended: for every input string that contains \<^verbatim>\<open>>\<close> or \<^verbatim>\<open><\<close> and every decimals
  setting, the formatter returns the value with its leading and trailing whitespace
  removed and nothing else changed; a comparison string is never reformatted.
\<close>

theorem C6_comparison_strings_stripped_only:
  assumes "CHR ''>'' \<in> set s \<or> CHR ''<'' \<in> set s"
  shows "format_number_with_decimals (PyStr s) d = Inr (py_strip s)"
  using assms by (rule format_cmp)

theorem C6_witness:
  "(CHR ''>'' \<in> set ''>10.0'' \<or> CHR ''<'' \<in> set ''>10.0'') \<and>
   format_number_with_decimals (PyStr ''>10.0'') (SStr ''2'') = Inr ''>10.0''"
proof -
  have h: "CHR ''>'' \<in> set ''>10.0'' \<or> CHR ''<'' \<in> set ''>10.0''" by simp
  have e: "py_strip ''>10.0'' = ''>10.0''" by code_simp
  from C6_comparison_strings_stripped_only [OF h, of "SStr ''2''"] h e show ?thesis by simp
qed

text \<open>
  C7, as the specification states it: for every numeric input string, default mode returns
  the integer representation when the parsed value is whole and otherwise the original
  string unmodified; it never rounds and only suppresses trailing zeros on integers. The
  code strips the value first, so \<^verbatim>\<open>" 10.5"\<close> is returned as \<^verbatim>\<open>"10.5"\<close>, not unmodified. It
  decides wholeness on the binary64 value that \<^verbatim>\<open>float\<close> returns, so a text beyond that
  precision comes back rounded: \<^verbatim>\<open>"0.99999999999999999999"\<close> as \<^verbatim>\<open>"1"\<close> and
  \<^verbatim>\<open>"9007199254740993"\<close> as \<^verbatim>\<open>"9007199254740992"\<close>. And the integer text is not the input
  less its trailing zeros: \<^verbatim>\<open>"1e2"\<close> is returned as \<^verbatim>\<open>"100"\<close>.
\<close>

theorem C7_counterexample:
  "py_float '' 10.5'' = Inr (Finite False (21 / 2)) \<and>
   whole_value (Finite False (21 / 2)) = None \<and>
   format_number_with_decimals (PyStr '' 10.5'') (SStr ''default'') = Inr ''10.5'' \<and>
   format_number_with_decimals (PyStr ''0.99999999999999999999'') (SStr ''default'') = Inr ''1'' \<and>
   format_number_with_decimals (PyStr ''9007199254740993'') (SStr ''default'')
     = Inr ''9007199254740992'' \<and>
   format_number_with_decimals (PyStr ''1e2'') (SStr ''default'') = Inr ''100''"
  by code_simp

text \<open>
  C7, amended: for every input string that \<^verbatim>\<open>float\<close> reads, once stripped, as a value \<open>num\<close>
  other than an infinity, the formatter in default mode returns \<^verbatim>\<open>str(int(num))\<close> when
  \<open>num\<close> is a whole number, and otherwise returns the input with its leading and trailing
  whitespace removed and nothing else changed. The integer returned equals \<open>num\<close> exactly
  and its text has no decimal point, so no trailing \<^verbatim>\<open>.0\<close>. Default mode adds no rounding to
  the one \<^verbatim>\<open>float\<close> makes when it reads the text as binary64: a text that denotes a whole
  number of magnitude below \<open>2\<^sup>5\<^sup>3\<close> is returned as that number.
\<close>

theorem C7_default_mode:
  assumes "py_float (py_strip s) = Inr num" and "\<not> is_infinite num"
  shows "format_number_with_decimals (PyStr s) (SStr ''default'') =
           Inr (case whole_value num of Some i \<Rightarrow> str_of_int i | None \<Rightarrow> py_strip s)
         \<and> (whole_value num = Some i \<longrightarrow>
              float_eq_int num i \<and> CHR ''.'' \<notin> set (str_of_int i))
         \<and> (text_value (py_strip s) = Some (neg, of_int n) \<and> 0 \<le> n \<and> n < 2 ^ 53 \<longrightarrow>
              format_number_with_decimals (PyStr s) (SStr ''default'') =
                Inr (str_of_int (if neg then - n else n)))"
proof (intro conjI impI)
  show "format_number_with_decimals (PyStr s) (SStr ''default'') =
          Inr (case whole_value num of Some i \<Rightarrow> str_of_int i | None \<Rightarrow> py_strip s)"
    using assms by (rule format_default)
next
  assume "whole_value num = Some i"
  then show "float_eq_int num i" by (rule whole_value_eq)
next
  show "CHR ''.'' \<notin> set (str_of_int i)" by (rule str_of_int_no_point)
next
  assume "text_value (py_strip s) = Some (neg, of_int n) \<and> 0 \<le> n \<and> n < 2 ^ 53"
  then show "format_number_with_decimals (PyStr s) (SStr ''default'') =
               Inr (str_of_int (if neg then - n else n))"
    using format_default_exact_text by blast
qed

theorem C7_witness:
  "py_float (py_strip ''10.0'') = Inr (Finite False 10) \<and>
   float_eq_int (Finite False 10) 10 \<and>
   format_number_with_decimals (PyStr ''10.0'') (SStr ''default'') = Inr ''10'' \<and>
   text_value (py_strip ''-12.00'') = Some (True, of_int 12) \<and>
   format_number_with_decimals (PyStr ''-12.00'') (SStr ''default'') = Inr ''-12'' \<and>
   py_float (py_strip '' 10.5'') = Inr (Finite False (21 / 2)) \<and>
   format_number_with_decimals (PyStr '' 10.5'') (SStr ''default'') = Inr ''10.5''"
proof -
  have a: "py_float (py_strip ''10.0'') = Inr (Finite False 10)" by code_simp
  have b: "py_float (py_strip '' 10.5'') = Inr (Finite False (21 / 2))" by code_simp
  have c: "py_float (py_strip ''-12.00'') = Inr (Finite True 12)" by code_simp
  have n: "\<not> is_infinite (Finite False 10)" "\<not> is_infinite (Finite False (21 / 2))"
    "\<not> is_infinite (Finite True 12)" by simp_all
  have wa: "whole_value (Finite False 10) = Some 10" by code_simp
  have wb: "whole_value (Finite False (21 / 2)) = None" by code_simp
  have sa: "str_of_int 10 = ''10''" by code_simp
  have sb: "py_strip '' 10.5'' = ''10.5''" by code_simp
  have tc: "text_value (py_strip ''-12.00'') = Some (True, of_int 12)" by code_simp
  have sc: "str_of_int (- 12) = ''-12''" by code_simp
  have pc: "text_value (py_strip ''-12.00'') = Some (True, of_int 12) \<and> (0::int) \<le> 12 \<and>
            (12::int) < 2 ^ 53"
    using tc by simp
  note ta = C7_default_mode[OF a n(1), of 10 False 10]
  note tb = C7_default_mode[OF b n(2), of 0 False 0]
  note tc' = C7_default_mode[OF c n(3), of "- 12" True 12]
  from ta[THEN conjunct1]
  have "format_number_with_decimals (PyStr ''10.0'') (SStr ''default'') = Inr (str_of_int 10)"
    by (simp only: wa option.case)
  then have ra: "format_number_with_decimals (PyStr ''10.0'') (SStr ''default'') = Inr ''10''"
    by (simp only: sa)
  from ta[THEN conjunct2, THEN conjunct1, THEN mp, OF wa]
  have ea: "float_eq_int (Finite False 10) 10" by (rule conjunct1)
  from tb[THEN conjunct1]
  have "format_number_with_decimals (PyStr '' 10.5'') (SStr ''default'') = Inr (py_strip '' 10.5'')"
    by (simp only: wb option.case)
  then have rb: "format_number_with_decimals (PyStr '' 10.5'') (SStr ''default'') = Inr ''10.5''"
    by (simp only: sb)
  from tc'[THEN conjunct2, THEN conjunct2, THEN mp, OF pc]
  have "format_number_with_decimals (PyStr ''-12.00'') (SStr ''default'') = Inr (str_of_int (- 12))"
    by (simp only: if_True)
  then have rc: "format_number_with_decimals (PyStr ''-12.00'') (SStr ''default'') = Inr ''-12''"
    by (simp only: sc)
  show ?thesis
    by (intro conjI) (rule a, rule ea, rule ra, rule tc, rule rc, rule b, rule rb)
qed

text \<open>
  C8, as the specification states it: a record whose category in upper case is none of
  \<^verbatim>\<open>POS\<close>, \<^verbatim>\<open>POS*\<close> and \<^verbatim>\<open>IND\<close> gets the empty comment. The four numeric fields are parsed
  before the category is looked at, inside the \<^verbatim>\<open>try\<close>: a negative record with a cell that
  is not a number gets \<^verbatim>\<open>Error\<close>.
\<close>

theorem C8_counterexample:
  "py_upper (row_get_str [''qft_result'' \<mapsto> PyStr ''NEG'', ''nil_result'' \<mapsto> PyStr ''abc'']
               ''qft_result'' []) = ''NEG''
   \<and> calculate_comment [''qft_result'' \<mapsto> PyStr ''NEG'', ''nil_result'' \<mapsto> PyStr ''abc'']
       = Inr ''Error''"
  by code_simp

text \<open>
  C8, amended: on a record whose category in upper case is none of \<^verbatim>\<open>POS\<close>, \<^verbatim>\<open>POS*\<close> and
  \<^verbatim>\<open>IND\<close> (\<^verbatim>\<open>NEG\<close>, or a value the classifier does not know) and whose four numeric fields
  parse, the comment is empty: a category that is not recognised is no error.
\<close>

theorem C8_other_categories:
  assumes "py_upper (row_get_str r ''qft_result'' []) \<notin> {''POS'', ''POS*'', ''IND''}"
    and "numeric_field r ''nil_result'' = Inr nil_val"
    and "numeric_field r ''tb1_nil'' = Inr tb1_nil"
    and "numeric_field r ''tb2_nil'' = Inr tb2_nil"
    and "numeric_field r ''mit_nil'' = Inr mit_nil"
  shows "calculate_comment r = Inr []"
  using calculate_comment_parsed[OF assms(2-5)] assms(1) by (simp add: comment_of_def)

theorem C8_witness:
  "py_upper (row_get_str [''qft_result'' \<mapsto> PyStr ''NEG''] ''qft_result'' []) = ''NEG''
   \<and> calculate_comment [''qft_result'' \<mapsto> PyStr ''NEG''] = Inr []
   \<and> calculate_comment [''qft_result'' \<mapsto> PyStr ''Pending'', ''tb1_nil'' \<mapsto> PyStr ''2.0''] = Inr []"
proof -
  let ?r = "[''qft_result'' \<mapsto> PyStr ''NEG'']"
  let ?s = "[''qft_result'' \<mapsto> PyStr ''Pending'', ''tb1_nil'' \<mapsto> PyStr ''2.0'']"
  have q: "py_upper (row_get_str ?r ''qft_result'' []) = ''NEG''" by code_simp
  then have q1: "py_upper (row_get_str ?r ''qft_result'' []) \<notin> {''POS'', ''POS*'', ''IND''}"
    by simp
  have z: "numeric_field ?r ''nil_result'' = Inr (Finite False 0)"
    "numeric_field ?r ''tb1_nil'' = Inr (Finite False 0)"
    "numeric_field ?r ''tb2_nil'' = Inr (Finite False 0)"
    "numeric_field ?r ''mit_nil'' = Inr (Finite False 0)" by code_simp+
  from C8_other_categories[OF q1 z] have a: "calculate_comment ?r = Inr []" .
  have "py_upper (row_get_str ?s ''qft_result'' []) = ''PENDING''" by code_simp
  then have q2: "py_upper (row_get_str ?s ''qft_result'' []) \<notin> {''POS'', ''POS*'', ''IND''}"
    by simp
  have z': "numeric_field ?s ''nil_result'' = Inr (Finite False 0)"
    "numeric_field ?s ''tb1_nil'' = Inr (Finite False 2)"
    "numeric_field ?s ''tb2_nil'' = Inr (Finite False 0)"
    "numeric_field ?s ''mit_nil'' = Inr (Finite False 0)" by code_simp+
  from C8_other_categories[OF q2 z'] have b: "calculate_comment ?s = Inr []" .
  from q a b show ?thesis by blast
qed

text \<open>
  C9: the formatter strips its input before any other check. An input of whitespace only,
  the empty string included, gives a single space; and on each path that returns the value
  as it is (a comparison string, a string that is not a number, a setting that is neither
  \<^verbatim>\<open>"default"\<close> nor an integer, a number that is not whole in default mode) what comes
  back is the stripped input.
\<close>

theorem C9_stripped_on_every_path:
  "format_number_with_decimals (PyStr (py_strip s)) d = format_number_with_decimals (PyStr s) d
   \<and> ((\<forall>c\<in>set s. py_isspace c) \<longrightarrow> format_number_with_decimals (PyStr s) d = Inr '' '')
   \<and> (CHR ''>'' \<in> set s \<or> CHR ''<'' \<in> set s \<longrightarrow>
        format_number_with_decimals (PyStr s) d = Inr (py_strip s))
   \<and> (py_strip s \<noteq> [] \<and> py_float (py_strip s) = Inl e \<longrightarrow>
        format_number_with_decimals (PyStr s) d = Inr (py_strip s))
   \<and> (py_strip s \<noteq> [] \<and> d \<noteq> SStr ''default'' \<and> py_int d = Inl e' \<longrightarrow>
        format_number_with_decimals (PyStr s) d = Inr (py_strip s))
   \<and> (py_float (py_strip s) = Inr num \<and> \<not> is_infinite num \<and> whole_value num = None \<longrightarrow>
        format_number_with_decimals (PyStr s) (SStr ''default'') = Inr (py_strip s))"
proof (intro conjI impI)
  show "format_number_with_decimals (PyStr (py_strip s)) d = format_number_with_decimals (PyStr s) d"
    by (rule format_strips_first)
next
  assume "\<forall>c\<in>set s. py_isspace c"
  then show "format_number_with_decimals (PyStr s) d = Inr '' ''" by (rule format_blank)
next
  assume "CHR ''>'' \<in> set s \<or> CHR ''<'' \<in> set s"
  then show "format_number_with_decimals (PyStr s) d = Inr (py_strip s)" by (rule format_cmp)
next
  assume "py_strip s \<noteq> [] \<and> py_float (py_strip s) = Inl e"
  then show "format_number_with_decimals (PyStr s) d = Inr (py_strip s)"
    using format_non_numeric by blast
next
  assume "py_strip s \<noteq> [] \<and> d \<noteq> SStr ''default'' \<and> py_int d = Inl e'"
  then show "format_number_with_decimals (PyStr s) d = Inr (py_strip s)"
    using format_bad_setting by blast
next
  assume a: "py_float (py_strip s) = Inr num \<and> \<not> is_infinite num \<and> whole_value num = None"
  then have "py_float (py_strip s) = Inr num" and "\<not> is_infinite num" by simp_all
  from format_default[OF this] a
  show "format_number_with_decimals (PyStr s) (SStr ''default'') = Inr (py_strip s)" by simp
qed

theorem C9_witness:
  "format_number_with_decimals (PyStr []) (SStr ''2'') = Inr '' '' \<and>
   format_number_with_decimals (PyStr ''  '') (SStr ''default'') = Inr '' '' \<and>
   format_number_with_decimals (PyStr '' >10.0 '') (SStr ''2'') = Inr ''>10.0'' \<and>
   format_number_with_decimals (PyStr '' n/a '') (SStr ''2'') = Inr ''n/a'' \<and>
   format_number_with_decimals (PyStr '' 10.256 '') (SStr ''two'') = Inr ''10.256'' \<and>
   format_number_with_decimals (PyStr '' 10.5 '') (SStr ''default'') = Inr ''10.5''"
proof -
  have b1: "\<forall>c\<in>set []. py_isspace c" by simp
  have b2: "\<forall>c\<in>set ''  ''. py_isspace c" by (simp add: py_isspace_def)
  have c3: "CHR ''>'' \<in> set '' >10.0 '' \<or> CHR ''<'' \<in> set '' >10.0 ''" by simp
  have s3: "py_strip '' >10.0 '' = ''>10.0''" by code_simp
  have s4: "py_strip '' n/a '' = ''n/a''" by code_simp
  have f4: "py_float ''n/a'' = Inl ValueError" by code_simp
  have s5: "py_strip '' 10.256 '' = ''10.256''" by code_simp
  have i5: "py_int (SStr ''two'') = Inl ValueError" by code_simp
  have s6: "py_strip '' 10.5 '' = ''10.5''" by code_simp
  have f6: "py_float ''10.5'' = Inr (Finite False (21 / 2))" by code_simp
  have w6: "whole_value (Finite False (21 / 2)) = None" by code_simp
  from C9_stripped_on_every_path[of "[]" "SStr ''2''"] b1
  have r1: "format_number_with_decimals (PyStr []) (SStr ''2'') = Inr '' ''" by blast
  from C9_stripped_on_every_path[of "''  ''" "SStr ''default''"] b2
  have r2: "format_number_with_decimals (PyStr ''  '') (SStr ''default'') = Inr '' ''" by blast
  from C9_stripped_on_every_path[of "'' >10.0 ''" "SStr ''2''"] c3 s3
  have r3: "format_number_with_decimals (PyStr '' >10.0 '') (SStr ''2'') = Inr ''>10.0''" by simp
  from C9_stripped_on_every_path[of "'' n/a ''" "SStr ''2''" ValueError] s4 f4
  have r4: "format_number_with_decimals (PyStr '' n/a '') (SStr ''2'') = Inr ''n/a''" by simp
  from C9_stripped_on_every_path[of "'' 10.256 ''" "SStr ''two''" _ ValueError] s5 i5
  have r5: "format_number_with_decimals (PyStr '' 10.256 '') (SStr ''two'') = Inr ''10.256''" by simp
  from C9_stripped_on_every_path[of "'' 10.5 ''" _ _ _ "Finite False (21 / 2)"] s6 f6 w6
  have r6: "format_number_with_decimals (PyStr '' 10.5 '') (SStr ''default'') = Inr ''10.5''" by simp
  from r1 r2 r3 r4 r5 r6 show ?thesis by simp
qed

text \<open>
  C10: with a numeric input and a decimals setting that parses as a negative integer, the
  format specification has no precision and raises \<^verbatim>\<open>ValueError\<close>; the inner handler, the
  one that also catches an unparseable setting, returns the stripped input.
\<close>

theorem C10_negative_decimals_fail_open:
  assumes "py_float (py_strip s) = Inr num" and "py_int d = Inr n" and "n < 0"
  shows "py_format_f num n = Inl ValueError
         \<and> format_number_with_decimals (PyStr s) d = Inr (py_strip s)"
  using format_negative_decimals[OF assms] py_format_f_negative[OF assms(3)] by simp

theorem C10_witness:
  "py_float (py_strip '' 10.256'') = Inr (Finite False (360850920143061 / 35184372088832)) \<and>
   py_int (SStr ''-1'') = Inr (- 1) \<and>
   format_number_with_decimals (PyStr '' 10.256'') (SStr ''-1'') = Inr ''10.256''"
proof -
  have a: "py_float (py_strip '' 10.256'') = Inr (Finite False (360850920143061 / 35184372088832))"
    by code_simp
  have b: "py_int (SStr ''-1'') = Inr (- 1)" by code_simp
  have c: "(- 1 :: int) < 0" by simp
  have s: "py_strip '' 10.256'' = ''10.256''" by code_simp
  from C10_negative_decimals_fail_open[OF a b c] s
  have r: "format_number_with_decimals (PyStr '' 10.256'') (SStr ''-1'') = Inr ''10.256''"
    by simp
  from a b r show ?thesis by blast
qed

end
